theory Spec2Isabelle
  imports Main "HOL-Library.Word" "HOL-Library.Monad_Syntax"
begin

unbundle bit_operations_syntax

section \<open>Configuration\<close>

text \<open>
  The kernel \<^verbatim>\<open>rtos.c\<close> is compiled against a configuration header that is not part of
  the sources at hand.  Everything it takes from there is a field of the record below:
  the number of application tasks, of priority classes, the capacity of one priority
  class, the round robin feature switch and the two timer event bits.  The width of the
  system time (C type \<^verbatim>\<open>uintTime_t\<close>) is the type parameter \<^verbatim>\<open>'w\<close> of
  \<^typ>\<open>'w word\<close> throughout.
\<close>

record config =
  RTOS_NO_TASKS :: nat
  RTOS_NO_PRIO_CLASSES :: nat
  RTOS_MAX_NO_TASKS_IN_PRIO_CLASS :: nat
  RTOS_ROUND_ROBIN_MODE_SUPPORTED :: bool
  RTOS_EVT_ABSOLUTE_TIMER :: "16 word"
  RTOS_EVT_DELAY_TIMER :: "16 word"

text \<open>
  The loop variables of the kernel are \<^verbatim>\<open>uint8_t\<close> (task and slot indices, counters)
  and \<^verbatim>\<open>int8_t\<close> (the priority index of the search for the new active task).  A
  configuration is valid when these types can hold the configured sizes.
\<close>

definition validConfig :: "config \<Rightarrow> bool" where
  "validConfig cfg \<longleftrightarrow>
     RTOS_NO_TASKS cfg \<le> 255 \<and> RTOS_NO_PRIO_CLASSES cfg \<le> 128 \<and>
     RTOS_MAX_NO_TASKS_IN_PRIO_CLASS cfg \<le> 255"

section \<open>Data model\<close>

text \<open>
  The task descriptor \<^verbatim>\<open>task_t\<close>.  The members that only serve the machine stack
  (\<^verbatim>\<open>stackPointer\<close>, \<^verbatim>\<open>taskFunction\<close>, \<^verbatim>\<open>pStackArea\<close>, \<^verbatim>\<open>stackSize\<close>) are
  left out: the stack is handled in assembly code and no kernel decision reads them.
  The two round robin members exist in the C struct only if the feature is compiled; here
  they always exist and are never touched when the feature is off.
\<close>

record 't task =
  prioClass :: nat
  timeDueAt :: 't
  timeRoundRobin :: 't
  cntDelay :: 't
  cntRoundRobin :: 't
  postedEventVec :: "16 word"
  eventMask :: "16 word"
  waitForAnyEvent :: bool
  cntOverrun :: "8 word"

text \<open>
  A pointer to a task object is either the null pointer (the content of a static pointer
  array before anything is stored) or the address of element \<^verbatim>\<open>i\<close> of
  \<^verbatim>\<open>_taskAry\<close>.
\<close>

datatype taskptr = Null | TaskPtr nat

text \<open>
  The global data of the kernel.  The arrays have a fixed capacity and a separate fill
  count, as in the C code; the counts are \<^verbatim>\<open>uint8_t\<close> and are kept as naturals with
  the wrap-around written out.
\<close>

record 't kernel =
  time :: 't
  taskAry :: "'t task list"
  pActiveTask :: taskptr
  pSuspendedTask :: taskptr
  pDueTaskAryAry :: "taskptr list list"
  noDueTasksAry :: "nat list"
  pSuspendedTaskAry :: "taskptr list"
  noSuspendedTasks :: nat

definition pIdleTask :: "config \<Rightarrow> taskptr" where
  "pIdleTask cfg = TaskPtr (RTOS_NO_TASKS cfg)"

subsection \<open>Memory access\<close>

text \<open>
  An array access outside of the array and the dereferencing of a null pointer are
  undefined in C.  Every kernel function of the model returns \<^term>\<open>None\<close> in that case.
\<close>

definition rd :: "'a list \<Rightarrow> nat \<Rightarrow> 'a option" where
  "rd xs i = (if i < length xs then Some (xs ! i) else None)"

definition wr :: "'a list \<Rightarrow> nat \<Rightarrow> 'a \<Rightarrow> 'a list option" where
  "wr xs i v = (if i < length xs then Some (xs[i := v]) else None)"

definition getTask :: "'t kernel \<Rightarrow> taskptr \<Rightarrow> 't task option" where
  "getTask s p = (case p of Null \<Rightarrow> None | TaskPtr i \<Rightarrow> rd (taskAry s) i)"

definition putTask :: "'t kernel \<Rightarrow> taskptr \<Rightarrow> 't task \<Rightarrow> 't kernel option" where
  "putTask s p t =
     (case p of Null \<Rightarrow> None
      | TaskPtr i \<Rightarrow> do { a \<leftarrow> wr (taskAry s) i t; Some (s\<lparr>taskAry := a\<rparr>) })"

text \<open>Increment and decrement of a \<^verbatim>\<open>uint8_t\<close> counter.\<close>

definition inc8 :: "nat \<Rightarrow> nat" where
  "inc8 n = (n + 1) mod 256"

definition dec8 :: "nat \<Rightarrow> nat" where
  "dec8 n = (n + 255) mod 256"

text \<open>
  The loop \<^verbatim>\<open>for(u=from; u<n; ++u) a[u] = a[u+1];\<close>.  It occurs three times in the
  kernel: when a released task is taken out of the array of suspended tasks, when the
  active task is taken out of its list of due tasks and when that list is rolled by one
  in round robin mode.
\<close>

function shiftDown :: "'a list \<Rightarrow> nat \<Rightarrow> nat \<Rightarrow> 'a list option" where
  "shiftDown a u n =
     (if u < n then do { v \<leftarrow> rd a (u + 1); shiftDown (a[u := v]) (u + 1) n }
      else Some a)"
  by pat_completeness auto
termination
  by (relation "measure (\<lambda>(a, u, n). n - u)") auto

declare shiftDown.simps [simp del]

text \<open>
  The search \<^verbatim>\<open>for(idxPrio=RTOS_NO_PRIO_CLASSES-1; idxPrio>=0; --idxPrio)\<close> for the
  highest non-empty priority class.  The second argument is \<^verbatim>\<open>idxPrio+1\<close>; the
  result is the class found, if any.
\<close>

fun searchDue :: "nat list \<Rightarrow> nat \<Rightarrow> nat option option" where
  "searchDue noDue 0 = Some None"
| "searchDue noDue (Suc idxPrio) =
     do { n \<leftarrow> rd noDue idxPrio;
          if n > 0 then Some (Some idxPrio) else searchDue noDue idxPrio }"

section \<open>The resume condition\<close>

definition storeResumeCondition ::
  "config \<Rightarrow> 'w::len word \<Rightarrow> 'w word task \<Rightarrow> 16 word \<Rightarrow> bool \<Rightarrow> 'w word \<Rightarrow> 'w word task" where
  "storeResumeCondition cfg now pT evMask all timeout =
     (let pT1 =
        (if evMask AND RTOS_EVT_ABSOLUTE_TIMER cfg \<noteq> 0 then
           (let pT2 = pT\<lparr>timeDueAt := timeDueAt pT + timeout\<rparr> in
            if sint (timeDueAt pT2 - now) \<le> 0 then
              (let pT3 = (if cntOverrun pT2 < 0xff
                          then pT2\<lparr>cntOverrun := cntOverrun pT2 + 1\<rparr> else pT2)
               in pT3\<lparr>timeDueAt := now + 1\<rparr>)
            else pT2)
         else
           (let timeout1 = (if timeout + 1 \<noteq> 0 then timeout + 1 else timeout)
            in pT\<lparr>cntDelay := timeout1\<rparr>))
      in pT1\<lparr>eventMask := evMask, waitForAnyEvent := \<not> all\<rparr>)"

section \<open>Release of suspended tasks and choice of the active task\<close>

definition TIMER_EVT_MASK :: "config \<Rightarrow> 16 word" where
  "TIMER_EVT_MASK cfg = RTOS_EVT_ABSOLUTE_TIMER cfg OR RTOS_EVT_DELAY_TIMER cfg"

text \<open>The condition of the \<^verbatim>\<open>if\<close> in the loop of \<^verbatim>\<open>checkForTaskActivation\<close>.\<close>

definition releaseTest :: "config \<Rightarrow> 't task \<Rightarrow> bool" where
  "releaseTest cfg pT =
     (let eventVec = postedEventVec pT in
      (waitForAnyEvent pT \<and> eventVec \<noteq> 0)
      \<or> (\<not> waitForAnyEvent pT
          \<and> (((eventVec XOR eventMask pT) AND NOT (TIMER_EVT_MASK cfg)) = 0
               \<or> (eventVec AND eventMask pT AND TIMER_EVT_MASK cfg) \<noteq> 0)))"

text \<open>The body of that \<^verbatim>\<open>if\<close>: the task at \<^verbatim>\<open>idxSuspTask\<close> becomes due.\<close>

definition makeDue :: "config \<Rightarrow> nat \<Rightarrow> taskptr \<Rightarrow> 't kernel \<Rightarrow> 't kernel option" where
  "makeDue cfg idxSuspTask pT s =
     do { t \<leftarrow> getTask s pT;
          let prio = prioClass t;
          let t1 = t\<lparr>eventMask := 0\<rparr>;
          let t2 = (if RTOS_ROUND_ROBIN_MODE_SUPPORTED cfg
                    then t1\<lparr>cntRoundRobin := timeRoundRobin t1\<rparr> else t1);
          s1 \<leftarrow> putTask s pT t2;
          n \<leftarrow> rd (noDueTasksAry s1) prio;
          row \<leftarrow> rd (pDueTaskAryAry s1) prio;
          row1 \<leftarrow> wr row n pT;
          let s2 = s1\<lparr>pDueTaskAryAry := (pDueTaskAryAry s1)[prio := row1],
                      noDueTasksAry := (noDueTasksAry s1)[prio := inc8 n]\<rparr>;
          let s3 = s2\<lparr>noSuspendedTasks := dec8 (noSuspendedTasks s2)\<rparr>;
          a \<leftarrow> shiftDown (pSuspendedTaskAry s3) idxSuspTask (noSuspendedTasks s3);
          Some (s3\<lparr>pSuspendedTaskAry := a\<rparr>) }"

text \<open>
  The loop \<^verbatim>\<open>while(idxSuspTask<_noSuspendedTasks)\<close> of \<^verbatim>\<open>checkForTaskActivation\<close>.  The
  index is not advanced when a task is released, since the next task has been moved into
  the current slot.  The flag is the local variable \<^verbatim>\<open>isNewActiveTask\<close>.
\<close>

function scanSuspended ::
  "config \<Rightarrow> nat \<Rightarrow> bool \<Rightarrow> 't kernel \<Rightarrow> (bool \<times> 't kernel) option" where
  "scanSuspended cfg idxSuspTask isNewActiveTask s =
     (if idxSuspTask < noSuspendedTasks s then
        do { pT \<leftarrow> rd (pSuspendedTaskAry s) idxSuspTask;
             t \<leftarrow> getTask s pT;
             if releaseTest cfg t
             then do { s1 \<leftarrow> makeDue cfg idxSuspTask pT s;
                       scanSuspended cfg idxSuspTask True s1 }
             else scanSuspended cfg (idxSuspTask + 1) isNewActiveTask s }
      else Some (isNewActiveTask, s))"
  by pat_completeness auto
termination
proof (relation "measure (\<lambda>(cfg, idx, isNew, s). 2 * noSuspendedTasks s - idx)", goal_cases)
  case 1
  show ?case by simp
next
  case (2 cfg idx isNew s pT t s1)
  from \<open>makeDue cfg idx pT s = Some s1\<close>
  have n1: "noSuspendedTasks s1 = dec8 (noSuspendedTasks s)"
    by (auto simp: makeDue_def putTask_def Let_def
             split: bind_splits taskptr.splits if_splits)
  have "dec8 (noSuspendedTasks s) < noSuspendedTasks s"
  proof (cases "noSuspendedTasks s < 256")
    case True
    from 2 have "noSuspendedTasks s + 255 = (noSuspendedTasks s - 1) + 256" by simp
    then have "(noSuspendedTasks s + 255) mod 256 = (noSuspendedTasks s - 1) mod 256"
      by (metis mod_add_self2)
    with True 2 show ?thesis by (simp add: dec8_def)
  next
    case False
    have "(noSuspendedTasks s + 255) mod 256 < 256" by simp
    with False show ?thesis unfolding dec8_def by linarith
  qed
  with n1 2 show ?case by simp
next
  case 3
  then show ?case by simp
qed

declare scanSuspended.simps [simp del]

text \<open>
  With round robin compiled, \<^verbatim>\<open>isNewActiveTask\<close> is a parameter of the function;
  without, it is a local variable that starts as \<^verbatim>\<open>false\<close>.
\<close>

definition checkForTaskActivation ::
  "config \<Rightarrow> bool \<Rightarrow> 't kernel \<Rightarrow> (bool \<times> 't kernel) option" where
  "checkForTaskActivation cfg isNewActiveTask s =
     do { (isNew, s1) \<leftarrow>
            scanSuspended cfg 0 (RTOS_ROUND_ROBIN_MODE_SUPPORTED cfg \<and> isNewActiveTask) s;
          if isNew then
            do { found \<leftarrow> searchDue (noDueTasksAry s1) (RTOS_NO_PRIO_CLASSES cfg);
                 case found of
                   None \<Rightarrow> Some (True, s1)
                 | Some idxPrio \<Rightarrow>
                     do { row \<leftarrow> rd (pDueTaskAryAry s1) idxPrio;
                          p \<leftarrow> rd row 0;
                          let s2 = s1\<lparr>pSuspendedTask := pActiveTask s1\<rparr>;
                          let s3 = s2\<lparr>pActiveTask := p\<rparr>;
                          Some (pActiveTask s3 \<noteq> pSuspendedTask s3, s3) } }
          else Some (False, s1) }"

section \<open>Timer tic and posting of events\<close>

text \<open>
  The loop \<^verbatim>\<open>for(idxSuspTask=0; idxSuspTask<_noSuspendedTasks; ++idxSuspTask)\<close> over all
  suspended tasks, which \<^verbatim>\<open>onTimerTic\<close> and \<^verbatim>\<open>setEvent\<close> both start with.  The argument
  \<^verbatim>\<open>body\<close> is what the loop does to the task object \<^verbatim>\<open>*pT\<close>.
\<close>

function forSuspended ::
  "('t task \<Rightarrow> 't task) \<Rightarrow> nat \<Rightarrow> 't kernel \<Rightarrow> 't kernel option" where
  "forSuspended body idxSuspTask s =
     (if idxSuspTask < noSuspendedTasks s then
        do { pT \<leftarrow> rd (pSuspendedTaskAry s) idxSuspTask;
             t \<leftarrow> getTask s pT;
             s1 \<leftarrow> putTask s pT (body t);
             forSuspended body (idxSuspTask + 1) s1 }
      else Some s)"
  by pat_completeness auto
termination
proof (relation "measure (\<lambda>(body, idx, s). noSuspendedTasks s - idx)", goal_cases)
  case 1
  show ?case by simp
next
  case (2 body idx s pT t s1)
  from \<open>putTask s pT (body t) = Some s1\<close>
  have "noSuspendedTasks s1 = noSuspendedTasks s"
    by (auto simp: putTask_def split: bind_splits taskptr.splits)
  with 2 show ?case by simp
qed

declare forSuspended.simps [simp del]

text \<open>The timers of one suspended task, served in the loop of \<^verbatim>\<open>onTimerTic\<close>.\<close>

definition serveTimers :: "config \<Rightarrow> 'w::len word \<Rightarrow> 'w word task \<Rightarrow> 'w word task" where
  "serveTimers cfg now pT =
     (let pT1 = (if now = timeDueAt pT
                 then pT\<lparr>postedEventVec :=
                          postedEventVec pT OR (RTOS_EVT_ABSOLUTE_TIMER cfg AND eventMask pT)\<rparr>
                 else pT)
      in if cntDelay pT1 > 0 then
           (let pT2 = pT1\<lparr>cntDelay := cntDelay pT1 - 1\<rparr> in
            if cntDelay pT2 = 0
            then pT2\<lparr>postedEventVec :=
                       postedEventVec pT2 OR (RTOS_EVT_DELAY_TIMER cfg AND eventMask pT2)\<rparr>
            else pT2)
         else pT1)"

text \<open>
  The round robin part of \<^verbatim>\<open>onTimerTic\<close>.  The result holds the local variable
  \<^verbatim>\<open>isNewActiveTask\<close>.
\<close>

definition roundRobin :: "'w::len word kernel \<Rightarrow> (bool \<times> 'w word kernel) option" where
  "roundRobin s =
     do { a \<leftarrow> getTask s (pActiveTask s);
          if cntRoundRobin a > 0 then
            do { let a1 = a\<lparr>cntRoundRobin := cntRoundRobin a - 1\<rparr>;
                 if cntRoundRobin a1 = 0 then
                   do { let a2 = a1\<lparr>cntRoundRobin := timeRoundRobin a1\<rparr>;
                        s1 \<leftarrow> putTask s (pActiveTask s) a2;
                        let prio = prioClass a2;
                        noTasks \<leftarrow> rd (noDueTasksAry s1) prio;
                        if noTasks > 1 then
                          do { row \<leftarrow> rd (pDueTaskAryAry s1) prio;
                               row1 \<leftarrow> shiftDown row 0 (dec8 noTasks);
                               row2 \<leftarrow> wr row1 (dec8 noTasks) (pActiveTask s1);
                               Some (True, s1\<lparr>pDueTaskAryAry :=
                                                (pDueTaskAryAry s1)[prio := row2]\<rparr>) }
                        else Some (False, s1) }
                 else do { s1 \<leftarrow> putTask s (pActiveTask s) a1; Some (False, s1) } }
          else Some (False, s) }"

definition onTimerTic :: "config \<Rightarrow> 'w::len word kernel \<Rightarrow> (bool \<times> 'w word kernel) option" where
  "onTimerTic cfg s =
     do { let s1 = s\<lparr>time := time s + 1\<rparr>;
          s2 \<leftarrow> forSuspended (serveTimers cfg (time s1)) 0 s1;
          (isNewActiveTask, s3) \<leftarrow>
            (if RTOS_ROUND_ROBIN_MODE_SUPPORTED cfg then roundRobin s2 else Some (False, s2));
          checkForTaskActivation cfg isNewActiveTask s3 }"

text \<open>What the loop of \<^verbatim>\<open>setEvent\<close> does to one suspended task.\<close>

definition postEvent :: "16 word \<Rightarrow> 't task \<Rightarrow> 't task" where
  "postEvent postedEvents pT =
     pT\<lparr>postedEventVec := postedEventVec pT OR (postedEvents AND eventMask pT)\<rparr>"

definition setEvent :: "config \<Rightarrow> 16 word \<Rightarrow> 't kernel \<Rightarrow> (bool \<times> 't kernel) option" where
  "setEvent cfg postedEvents s =
     do { let postedEvents1 =
                postedEvents AND NOT (RTOS_EVT_ABSOLUTE_TIMER cfg OR RTOS_EVT_DELAY_TIMER cfg);
          s1 \<leftarrow> forSuspended (postEvent postedEvents1) 0 s;
          checkForTaskActivation cfg False s1 }"

section \<open>Suspending the active task\<close>

definition waitForEvent ::
  "config \<Rightarrow> 16 word \<Rightarrow> bool \<Rightarrow> 'w::len word \<Rightarrow> 'w word kernel \<Rightarrow> 'w word kernel option" where
  "waitForEvent cfg evMask all timeout s =
     do { let pT = pActiveTask s;
          t \<leftarrow> getTask s pT;
          let prio = prioClass t;
          n \<leftarrow> rd (noDueTasksAry s) prio;
          let noDueNow = dec8 n;
          let s1 = s\<lparr>noDueTasksAry := (noDueTasksAry s)[prio := noDueNow]\<rparr>;
          row \<leftarrow> rd (pDueTaskAryAry s1) prio;
          row1 \<leftarrow> shiftDown row 0 noDueNow;
          let s2 = s1\<lparr>pDueTaskAryAry := (pDueTaskAryAry s1)[prio := row1]\<rparr>;
          s3 \<leftarrow> putTask s2 pT (storeResumeCondition cfg (time s2) t evMask all timeout);
          a \<leftarrow> wr (pSuspendedTaskAry s3) (noSuspendedTasks s3) (pActiveTask s3);
          let s4 = s3\<lparr>pSuspendedTaskAry := a,
                      noSuspendedTasks := inc8 (noSuspendedTasks s3)\<rparr>;
          let s5 = s4\<lparr>pSuspendedTask := pActiveTask s4\<rparr>;
          let s6 = s5\<lparr>pActiveTask := pIdleTask cfg\<rparr>;
          found \<leftarrow> searchDue (noDueTasksAry s6) (RTOS_NO_PRIO_CLASSES cfg);
          case found of
            None \<Rightarrow> Some s6
          | Some idxPrio \<Rightarrow>
              do { row2 \<leftarrow> rd (pDueTaskAryAry s6) idxPrio;
                   p \<leftarrow> rd row2 0;
                   Some (s6\<lparr>pActiveTask := p\<rparr>) } }"

section \<open>The kernel entries\<close>

text \<open>
  The macro \<^verbatim>\<open>PUSH_RET_CODE_OF_CONTEXT_SWITCH\<close>, which follows every switch of the stack
  pointer: the events posted to the new active task are handed over as return value of
  its suspend command and cleared in the task object.  The stack itself is not modelled.
\<close>

definition PUSH_RET_CODE_OF_CONTEXT_SWITCH :: "'t kernel \<Rightarrow> 't kernel option" where
  "PUSH_RET_CODE_OF_CONTEXT_SWITCH s =
     do { a \<leftarrow> getTask s (pActiveTask s);
          if postedEventVec a > 0
          then putTask s (pActiveTask s) (a\<lparr>postedEventVec := 0\<rparr>)
          else Some s }"

text \<open>The interrupt service routine of the system timer.\<close>

definition ISR_SYSTEM_TIMER_TIC :: "config \<Rightarrow> 'w::len word kernel \<Rightarrow> 'w word kernel option" where
  "ISR_SYSTEM_TIMER_TIC cfg s =
     do { (switch, s1) \<leftarrow> onTimerTic cfg s;
          if switch then PUSH_RET_CODE_OF_CONTEXT_SWITCH s1 else Some s1 }"

text \<open>
  The software interrupt \<^verbatim>\<open>rtos_setEvent\<close>.  The two application interrupts jump into
  its code with a constant event vector.
\<close>

definition rtos_setEvent :: "config \<Rightarrow> 16 word \<Rightarrow> 't kernel \<Rightarrow> 't kernel option" where
  "rtos_setEvent cfg eventVec s =
     do { (switch, s1) \<leftarrow> setEvent cfg eventVec s;
          if switch then PUSH_RET_CODE_OF_CONTEXT_SWITCH s1 else Some s1 }"

text \<open>The software interrupt \<^verbatim>\<open>rtos_waitForEvent\<close>; it always switches the context.\<close>

definition rtos_waitForEvent ::
  "config \<Rightarrow> 16 word \<Rightarrow> bool \<Rightarrow> 'w::len word \<Rightarrow> 'w word kernel \<Rightarrow> 'w word kernel option" where
  "rtos_waitForEvent cfg evMask all timeout s =
     do { s1 \<leftarrow> waitForEvent cfg evMask all timeout s;
          PUSH_RET_CODE_OF_CONTEXT_SWITCH s1 }"

definition rtos_getTaskOverrunCounter ::
  "nat \<Rightarrow> bool \<Rightarrow> 't kernel \<Rightarrow> (8 word \<times> 't kernel) option" where
  "rtos_getTaskOverrunCounter idxTask doReset s =
     do { t \<leftarrow> getTask s (TaskPtr idxTask);
          if doReset
          then do { s1 \<leftarrow> putTask s (TaskPtr idxTask) (t\<lparr>cntOverrun := 0\<rparr>);
                    Some (cntOverrun t, s1) }
          else Some (cntOverrun t, s) }"

section \<open>Initialization\<close>

text \<open>
  The arguments of one call of \<^verbatim>\<open>rtos_initializeTask\<close>: index of the task, priority
  class, round robin time, start event mask, start by all events, start timeout.  The
  task function and the stack area are not modelled.
\<close>

datatype 't initCall = InitializeTask nat nat 't "16 word" bool 't

fun rtos_initializeTask ::
  "config \<Rightarrow> 'w::len word initCall \<Rightarrow> 'w word kernel \<Rightarrow> 'w word kernel option" where
  "rtos_initializeTask cfg
      (InitializeTask idxTask prio timeRR startEventMask startByAllEvents startTimeout) s =
     do { t \<leftarrow> getTask s (TaskPtr idxTask);
          let t1 = t\<lparr>prioClass := prio\<rparr>;
          let t2 = t1\<lparr>cntDelay := 0, timeDueAt := 0\<rparr>;
          let t3 = storeResumeCondition cfg (time s) t2
                     startEventMask startByAllEvents startTimeout;
          let t4 = (if RTOS_ROUND_ROBIN_MODE_SUPPORTED cfg
                    then t3\<lparr>timeRoundRobin := timeRR\<rparr> else t3);
          putTask s (TaskPtr idxTask) t4 }"

text \<open>
  The initialization callback of the application, as far as the kernel is concerned: a
  sequence of calls of \<^verbatim>\<open>rtos_initializeTask\<close>.
\<close>

fun applSetup :: "config \<Rightarrow> 'w::len word initCall list \<Rightarrow> 'w word kernel \<Rightarrow> 'w word kernel option" where
  "applSetup cfg [] s = Some s"
| "applSetup cfg (c # cs) s = do { s1 \<leftarrow> rtos_initializeTask cfg c s; applSetup cfg cs s1 }"

text \<open>The static data of the module before any code runs: C initializes it with zero.\<close>

definition zeroTask :: "'w::len word task" where
  "zeroTask = \<lparr>prioClass = 0, timeDueAt = 0, timeRoundRobin = 0, cntDelay = 0,
               cntRoundRobin = 0, postedEventVec = 0, eventMask = 0,
               waitForAnyEvent = False, cntOverrun = 0\<rparr>"

definition staticData :: "config \<Rightarrow> 'w::len word kernel" where
  "staticData cfg =
     \<lparr>time = - 1,
      taskAry = replicate (RTOS_NO_TASKS cfg + 1) zeroTask,
      pActiveTask = pIdleTask cfg,
      pSuspendedTask = pIdleTask cfg,
      pDueTaskAryAry = replicate (RTOS_NO_PRIO_CLASSES cfg)
                         (replicate (RTOS_MAX_NO_TASKS_IN_PRIO_CLASS cfg) Null),
      noDueTasksAry = replicate (RTOS_NO_PRIO_CLASSES cfg) 0,
      pSuspendedTaskAry = replicate (RTOS_NO_TASKS cfg) Null,
      noSuspendedTasks = 0\<rparr>"

text \<open>
  \<^verbatim>\<open>rtos_initRTOS\<close> up to the point where the interrupts are enabled.  The loop over the
  tasks and the assignments to the idle task object are written as one update of the
  task array each.
\<close>

definition initTaskObject :: "config \<Rightarrow> 'w::len word task \<Rightarrow> 'w word task" where
  "initTaskObject cfg pT =
     (let pT1 = (if RTOS_ROUND_ROBIN_MODE_SUPPORTED cfg then pT\<lparr>cntRoundRobin := 0\<rparr> else pT)
      in pT1\<lparr>postedEventVec := 0, cntOverrun := 0\<rparr>)"

definition initIdleTaskObject :: "config \<Rightarrow> 'w::len word task \<Rightarrow> 'w word task" where
  "initIdleTaskObject cfg pT =
     (let pT1 = pT\<lparr>timeDueAt := 0, cntDelay := 0\<rparr>;
          pT2 = (if RTOS_ROUND_ROBIN_MODE_SUPPORTED cfg then pT1\<lparr>cntRoundRobin := 0\<rparr> else pT1)
      in pT2\<lparr>postedEventVec := 0, eventMask := 0, waitForAnyEvent := True,
              cntOverrun := 0\<rparr>)"

definition rtos_initRTOS :: "config \<Rightarrow> 'w::len word initCall list \<Rightarrow> 'w word kernel option" where
  "rtos_initRTOS cfg calls =
     do { s1 \<leftarrow> applSetup cfg calls (staticData cfg);
          idle \<leftarrow> getTask s1 (pIdleTask cfg);
          Some (s1\<lparr>taskAry := map (initTaskObject cfg) (take (RTOS_NO_TASKS cfg) (taskAry s1))
                                @ [initIdleTaskObject cfg idle],
                    pSuspendedTaskAry := map TaskPtr [0..<RTOS_NO_TASKS cfg],
                    noSuspendedTasks := RTOS_NO_TASKS cfg,
                    noDueTasksAry := replicate (RTOS_NO_PRIO_CLASSES cfg) 0,
                    pActiveTask := pIdleTask cfg,
                    pSuspendedTask := pIdleTask cfg\<rparr>) }"

section \<open>Reachable states\<close>

text \<open>
  The states of the kernel data between two kernel entries: the state in which
  \<^verbatim>\<open>rtos_initRTOS\<close> starts the interrupts, and every state a kernel entry leaves behind.
  A task (not the idle task) may suspend itself; everybody may post events or ask for an
  overrun counter; the timer interrupt comes at any time.
\<close>

inductive reachable :: "config \<Rightarrow> 'w::len word kernel \<Rightarrow> bool" for cfg :: config where
  r_init: "validConfig cfg \<Longrightarrow> rtos_initRTOS cfg calls = Some s \<Longrightarrow> reachable cfg s"
| r_tic: "reachable cfg s \<Longrightarrow> ISR_SYSTEM_TIMER_TIC cfg s = Some s1 \<Longrightarrow> reachable cfg s1"
| r_setEvent: "reachable cfg s \<Longrightarrow> rtos_setEvent cfg eventVec s = Some s1 \<Longrightarrow> reachable cfg s1"
| r_waitForEvent:
    "reachable cfg s \<Longrightarrow> pActiveTask s \<noteq> pIdleTask cfg \<Longrightarrow>
     rtos_waitForEvent cfg evMask all timeout s = Some s1 \<Longrightarrow> reachable cfg s1"
| r_getTaskOverrunCounter:
    "reachable cfg s \<Longrightarrow> rtos_getTaskOverrunCounter idxTask doReset s = Some (r, s1) \<Longrightarrow>
     reachable cfg s1"

text \<open>
  The states that the kernel reaches from a given state without a timer tic.  The third
  argument collects the event vectors that \<^verbatim>\<open>rtos_setEvent\<close> has been called with on the way.
\<close>

inductive withoutTic ::
  "config \<Rightarrow> 'w::len word kernel \<Rightarrow> 16 word \<Rightarrow> 'w word kernel \<Rightarrow> bool"
  for cfg :: config and s :: "'w::len word kernel" where
  u_start: "withoutTic cfg s 0 s"
| u_setEvent:
    "withoutTic cfg s acc s1 \<Longrightarrow> rtos_setEvent cfg eventVec s1 = Some s2 \<Longrightarrow>
     withoutTic cfg s (acc OR eventVec) s2"
| u_waitForEvent:
    "withoutTic cfg s acc s1 \<Longrightarrow> pActiveTask s1 \<noteq> pIdleTask cfg \<Longrightarrow>
     rtos_waitForEvent cfg evMask all timeout s1 = Some s2 \<Longrightarrow> withoutTic cfg s acc s2"
| u_getTaskOverrunCounter:
    "withoutTic cfg s acc s1 \<Longrightarrow>
     rtos_getTaskOverrunCounter idxTask doReset s1 = Some (r, s2) \<Longrightarrow> withoutTic cfg s acc s2"

section \<open>The lists held in the arrays\<close>

text \<open>The filled part of the array of suspended tasks and of the array of one priority class.\<close>

definition suspList :: "'t kernel \<Rightarrow> taskptr list" where
  "suspList s = take (noSuspendedTasks s) (pSuspendedTaskAry s)"

definition dueList :: "'t kernel \<Rightarrow> nat \<Rightarrow> taskptr list" where
  "dueList s c = take (noDueTasksAry s ! c) (pDueTaskAryAry s ! c)"

text \<open>Whether the task a pointer refers to passes the release test, and its priority class.\<close>

definition isReleased :: "config \<Rightarrow> 't kernel \<Rightarrow> taskptr \<Rightarrow> bool" where
  "isReleased cfg s p = (case getTask s p of Some t \<Rightarrow> releaseTest cfg t | None \<Rightarrow> False)"

definition prioOf :: "'t kernel \<Rightarrow> taskptr \<Rightarrow> nat" where
  "prioOf s p = (case getTask s p of Some t \<Rightarrow> prioClass t | None \<Rightarrow> 0)"

text \<open>
  Whether a suspended task passes the release test in the timer tic that follows the
  state \<^term>\<open>s\<close>: the tic first serves the timers of the task with the incremented system time
  and then applies the test.
\<close>

definition releasedAtTic :: "config \<Rightarrow> 'w::len word kernel \<Rightarrow> taskptr \<Rightarrow> bool" where
  "releasedAtTic cfg s p =
     (case getTask s p of
        Some t \<Rightarrow> releaseTest cfg (serveTimers cfg (time s + 1) t)
      | None \<Rightarrow> False)"

section \<open>Consistency of the kernel data\<close>

text \<open>The arrays have their declared sizes and the fill counts do not exceed them.\<close>

definition shape :: "config \<Rightarrow> 't kernel \<Rightarrow> bool" where
  "shape cfg s \<longleftrightarrow>
     validConfig cfg
     \<and> length (taskAry s) = RTOS_NO_TASKS cfg + 1
     \<and> length (pSuspendedTaskAry s) = RTOS_NO_TASKS cfg
     \<and> length (noDueTasksAry s) = RTOS_NO_PRIO_CLASSES cfg
     \<and> length (pDueTaskAryAry s) = RTOS_NO_PRIO_CLASSES cfg
     \<and> (\<forall>c < RTOS_NO_PRIO_CLASSES cfg.
           length (pDueTaskAryAry s ! c) = RTOS_MAX_NO_TASKS_IN_PRIO_CLASS cfg
           \<and> noDueTasksAry s ! c \<le> RTOS_MAX_NO_TASKS_IN_PRIO_CLASS cfg)
     \<and> noSuspendedTasks s \<le> RTOS_NO_TASKS cfg"

text \<open>
  The lists hold application tasks only, no task twice; a task in the list of a priority
  class belongs to that class and is not suspended.  With round robin compiled, the
  round robin counter of the idle task is zero.
\<close>

definition listsOk :: "config \<Rightarrow> 'w::len word kernel \<Rightarrow> bool" where
  "listsOk cfg s \<longleftrightarrow>
     shape cfg s
     \<and> distinct (suspList s)
     \<and> (\<forall>p \<in> set (suspList s). \<exists>i < RTOS_NO_TASKS cfg. p = TaskPtr i)
     \<and> (\<forall>c < RTOS_NO_PRIO_CLASSES cfg.
           distinct (dueList s c)
           \<and> (\<forall>p \<in> set (dueList s c).
                 p \<notin> set (suspList s)
                 \<and> (\<exists>i < RTOS_NO_TASKS cfg. p = TaskPtr i \<and> prioClass (taskAry s ! i) = c)))
     \<and> (RTOS_ROUND_ROBIN_MODE_SUPPORTED cfg
          \<longrightarrow> cntRoundRobin (taskAry s ! RTOS_NO_TASKS cfg) = 0)"

text \<open>
  The active task is the first entry of the highest non-empty priority class, which the
  search of the kernel finds, and the idle task if all classes are empty.
\<close>

definition activeOk :: "config \<Rightarrow> 't kernel \<Rightarrow> bool" where
  "activeOk cfg s \<longleftrightarrow>
     (case searchDue (noDueTasksAry s) (RTOS_NO_PRIO_CLASSES cfg) of
        None \<Rightarrow> False
      | Some None \<Rightarrow> pActiveTask s = pIdleTask cfg
      | Some (Some c) \<Rightarrow> pActiveTask s = pDueTaskAryAry s ! c ! 0)"

definition kernelInv :: "config \<Rightarrow> 'w::len word kernel \<Rightarrow> bool" where
  "kernelInv cfg s \<longleftrightarrow> listsOk cfg s \<and> activeOk cfg s"

section \<open>Example data\<close>

text \<open>
  A configuration with one task and one priority class, with the event bits as the
  header of the kernel defines them (the two most significant bits are the timers), and
  an eight bit system time.
\<close>

definition cfg1 :: config where
  "cfg1 = \<lparr>RTOS_NO_TASKS = 1, RTOS_NO_PRIO_CLASSES = 1, RTOS_MAX_NO_TASKS_IN_PRIO_CLASS = 1,
            RTOS_ROUND_ROBIN_MODE_SUPPORTED = False,
            RTOS_EVT_ABSOLUTE_TIMER = 0x4000, RTOS_EVT_DELAY_TIMER = 0x8000\<rparr>"

text \<open>
  A task that waits for all of event 0 and the delay timer, at the moment when only the
  timer has elapsed, and the kernel data around it.
\<close>

definition taskX :: "8 word task" where
  "taskX = \<lparr>prioClass = 0, timeDueAt = 0, timeRoundRobin = 0, cntDelay = 0,
             cntRoundRobin = 0, postedEventVec = 0x8000, eventMask = 0x8001,
             waitForAnyEvent = False, cntOverrun = 0\<rparr>"

definition stateX :: "8 word kernel" where
  "stateX = \<lparr>time = 5, taskAry = [taskX, zeroTask\<lparr>waitForAnyEvent := True\<rparr>],
              pActiveTask = TaskPtr 1, pSuspendedTask = TaskPtr 1,
              pDueTaskAryAry = [[Null]], noDueTasksAry = [0],
              pSuspendedTaskAry = [TaskPtr 0], noSuspendedTasks = 1\<rparr>"

text \<open>
  A task that waits for any of event 3 and the delay timer, before and after the
  events 3 and absolute timer are posted; and the state after the scan of the state
  above.
\<close>

definition stateY :: "8 word kernel" where
  "stateY = \<lparr>time = 5,
     taskAry = [taskX\<lparr>postedEventVec := 0, eventMask := 0x8008, waitForAnyEvent := True\<rparr>,
                zeroTask\<lparr>waitForAnyEvent := True\<rparr>],
              pActiveTask = TaskPtr 1, pSuspendedTask = TaskPtr 1,
              pDueTaskAryAry = [[Null]], noDueTasksAry = [0],
              pSuspendedTaskAry = [TaskPtr 0], noSuspendedTasks = 1\<rparr>"

definition stateY1 :: "8 word kernel" where
  "stateY1 = \<lparr>time = 5,
     taskAry = [taskX\<lparr>postedEventVec := 8, eventMask := 0, waitForAnyEvent := True\<rparr>,
                zeroTask\<lparr>waitForAnyEvent := True\<rparr>],
              pActiveTask = TaskPtr 0, pSuspendedTask = TaskPtr 1,
              pDueTaskAryAry = [[TaskPtr 0]], noDueTasksAry = [1],
              pSuspendedTaskAry = [TaskPtr 0], noSuspendedTasks = 0\<rparr>"

definition stateX1 :: "8 word kernel" where
  "stateX1 = \<lparr>time = 5, taskAry = [taskX\<lparr>eventMask := 0\<rparr>, zeroTask\<lparr>waitForAnyEvent := True\<rparr>],
              pActiveTask = TaskPtr 0, pSuspendedTask = TaskPtr 1,
              pDueTaskAryAry = [[TaskPtr 0]], noDueTasksAry = [1],
              pSuspendedTaskAry = [TaskPtr 0], noSuspendedTasks = 0\<rparr>"

text \<open>
  A system with the single task of \<^term>\<open>cfg1\<close>: the state after the initialization, after
  the first timer tic, and after the task has then called \<^verbatim>\<open>rtos_waitForEvent\<close>.
\<close>

definition calls1 :: "8 word initCall list" where
  "calls1 = [InitializeTask 0 0 0 0x8000 False 0]"

definition state1I :: "8 word kernel" where
  "state1I = \<lparr>time = 255,
      taskAry = [zeroTask\<lparr>cntDelay := 1, eventMask := 0x8000, waitForAnyEvent := True\<rparr>,
                 zeroTask\<lparr>waitForAnyEvent := True\<rparr>],
      pActiveTask = TaskPtr 1, pSuspendedTask = TaskPtr 1,
      pDueTaskAryAry = [[Null]], noDueTasksAry = [0],
      pSuspendedTaskAry = [TaskPtr 0], noSuspendedTasks = 1\<rparr>"

definition state1T :: "8 word kernel" where
  "state1T = \<lparr>time = 0,
      taskAry = [zeroTask\<lparr>waitForAnyEvent := True\<rparr>, zeroTask\<lparr>waitForAnyEvent := True\<rparr>],
      pActiveTask = TaskPtr 0, pSuspendedTask = TaskPtr 1,
      pDueTaskAryAry = [[TaskPtr 0]], noDueTasksAry = [1],
      pSuspendedTaskAry = [TaskPtr 0], noSuspendedTasks = 0\<rparr>"

definition state1W :: "8 word kernel" where
  "state1W = \<lparr>time = 0,
      taskAry = [zeroTask\<lparr>timeDueAt := 100, eventMask := 0x4001\<rparr>,
                 zeroTask\<lparr>waitForAnyEvent := True\<rparr>],
      pActiveTask = TaskPtr 1, pSuspendedTask = TaskPtr 0,
      pDueTaskAryAry = [[TaskPtr 0]], noDueTasksAry = [0],
      pSuspendedTaskAry = [TaskPtr 0], noSuspendedTasks = 1\<rparr>"

text \<open>
  A system with round robin: two tasks of class 0 with a time slice of one tic and one
  task of class 1 that becomes due one tic later.  The states are those after the
  initialization, after the first tic, and after the second tic before and after the
  return code has been passed to the new active task.
\<close>

definition cfgA :: config where
  "cfgA = \<lparr>RTOS_NO_TASKS = 3, RTOS_NO_PRIO_CLASSES = 2, RTOS_MAX_NO_TASKS_IN_PRIO_CLASS = 2,
            RTOS_ROUND_ROBIN_MODE_SUPPORTED = True,
            RTOS_EVT_ABSOLUTE_TIMER = 0x4000, RTOS_EVT_DELAY_TIMER = 0x8000\<rparr>"

definition callsA :: "8 word initCall list" where
  "callsA = [InitializeTask 0 0 1 0x8000 False 0, InitializeTask 1 0 1 0x8000 False 0,
             InitializeTask 2 1 0 0x8000 False 1]"

definition stateA0 :: "8 word kernel" where
  "stateA0 = \<lparr>time = 255,
      taskAry = [zeroTask\<lparr>timeRoundRobin := 1, cntDelay := 1, eventMask := 0x8000,
                          waitForAnyEvent := True\<rparr>,
                 zeroTask\<lparr>timeRoundRobin := 1, cntDelay := 1, eventMask := 0x8000,
                          waitForAnyEvent := True\<rparr>,
                 zeroTask\<lparr>prioClass := 1, cntDelay := 2, eventMask := 0x8000,
                          waitForAnyEvent := True\<rparr>,
                 zeroTask\<lparr>waitForAnyEvent := True\<rparr>],
      pActiveTask = TaskPtr 3, pSuspendedTask = TaskPtr 3,
      pDueTaskAryAry = [[Null, Null], [Null, Null]], noDueTasksAry = [0, 0],
      pSuspendedTaskAry = [TaskPtr 0, TaskPtr 1, TaskPtr 2], noSuspendedTasks = 3\<rparr>"

definition stateA1 :: "8 word kernel" where
  "stateA1 = \<lparr>time = 0,
      taskAry = [zeroTask\<lparr>timeRoundRobin := 1, cntRoundRobin := 1, waitForAnyEvent := True\<rparr>,
                 zeroTask\<lparr>timeRoundRobin := 1, cntRoundRobin := 1, postedEventVec := 0x8000,
                          waitForAnyEvent := True\<rparr>,
                 zeroTask\<lparr>prioClass := 1, cntDelay := 1, eventMask := 0x8000,
                          waitForAnyEvent := True\<rparr>,
                 zeroTask\<lparr>waitForAnyEvent := True\<rparr>],
      pActiveTask = TaskPtr 0, pSuspendedTask = TaskPtr 3,
      pDueTaskAryAry = [[TaskPtr 0, TaskPtr 1], [Null, Null]], noDueTasksAry = [2, 0],
      pSuspendedTaskAry = [TaskPtr 2, TaskPtr 2, TaskPtr 2], noSuspendedTasks = 1\<rparr>"

definition stateA2 :: "8 word kernel" where
  "stateA2 = \<lparr>time = 1,
      taskAry = [zeroTask\<lparr>timeRoundRobin := 1, cntRoundRobin := 1, waitForAnyEvent := True\<rparr>,
                 zeroTask\<lparr>timeRoundRobin := 1, cntRoundRobin := 1, postedEventVec := 0x8000,
                          waitForAnyEvent := True\<rparr>,
                 zeroTask\<lparr>prioClass := 1, postedEventVec := 0x8000, waitForAnyEvent := True\<rparr>,
                 zeroTask\<lparr>waitForAnyEvent := True\<rparr>],
      pActiveTask = TaskPtr 2, pSuspendedTask = TaskPtr 0,
      pDueTaskAryAry = [[TaskPtr 1, TaskPtr 0], [TaskPtr 2, Null]], noDueTasksAry = [2, 1],
      pSuspendedTaskAry = [TaskPtr 2, TaskPtr 2, TaskPtr 2], noSuspendedTasks = 0\<rparr>"

definition stateA3 :: "8 word kernel" where
  "stateA3 = stateA2\<lparr>taskAry := (taskAry stateA2)[2 := zeroTask\<lparr>prioClass := 1, waitForAnyEvent := True\<rparr>]\<rparr>"

text \<open>
  The same system with all three tasks in class 0, so that the second tic ends a time
  slice and releases a task of the same class.
\<close>

definition cfgB :: config where
  "cfgB = \<lparr>RTOS_NO_TASKS = 3, RTOS_NO_PRIO_CLASSES = 2, RTOS_MAX_NO_TASKS_IN_PRIO_CLASS = 3,
            RTOS_ROUND_ROBIN_MODE_SUPPORTED = True,
            RTOS_EVT_ABSOLUTE_TIMER = 0x4000, RTOS_EVT_DELAY_TIMER = 0x8000\<rparr>"

definition callsB :: "8 word initCall list" where
  "callsB = [InitializeTask 0 0 1 0x8000 False 0, InitializeTask 1 0 1 0x8000 False 0,
             InitializeTask 2 0 1 0x8000 False 1]"

definition stateB0 :: "8 word kernel" where
  "stateB0 = \<lparr>time = 255,
      taskAry = [zeroTask\<lparr>timeRoundRobin := 1, cntDelay := 1, eventMask := 0x8000,
                          waitForAnyEvent := True\<rparr>,
                 zeroTask\<lparr>timeRoundRobin := 1, cntDelay := 1, eventMask := 0x8000,
                          waitForAnyEvent := True\<rparr>,
                 zeroTask\<lparr>timeRoundRobin := 1, cntDelay := 2, eventMask := 0x8000,
                          waitForAnyEvent := True\<rparr>,
                 zeroTask\<lparr>waitForAnyEvent := True\<rparr>],
      pActiveTask = TaskPtr 3, pSuspendedTask = TaskPtr 3,
      pDueTaskAryAry = [[Null, Null, Null], [Null, Null, Null]], noDueTasksAry = [0, 0],
      pSuspendedTaskAry = [TaskPtr 0, TaskPtr 1, TaskPtr 2], noSuspendedTasks = 3\<rparr>"

definition stateB1 :: "8 word kernel" where
  "stateB1 = \<lparr>time = 0,
      taskAry = [zeroTask\<lparr>timeRoundRobin := 1, cntRoundRobin := 1, waitForAnyEvent := True\<rparr>,
                 zeroTask\<lparr>timeRoundRobin := 1, cntRoundRobin := 1, postedEventVec := 0x8000,
                          waitForAnyEvent := True\<rparr>,
                 zeroTask\<lparr>timeRoundRobin := 1, cntDelay := 1, eventMask := 0x8000,
                          waitForAnyEvent := True\<rparr>,
                 zeroTask\<lparr>waitForAnyEvent := True\<rparr>],
      pActiveTask = TaskPtr 0, pSuspendedTask = TaskPtr 3,
      pDueTaskAryAry = [[TaskPtr 0, TaskPtr 1, Null], [Null, Null, Null]],
      noDueTasksAry = [2, 0],
      pSuspendedTaskAry = [TaskPtr 2, TaskPtr 2, TaskPtr 2], noSuspendedTasks = 1\<rparr>"

definition stateB2 :: "8 word kernel" where
  "stateB2 = \<lparr>time = 1,
      taskAry = [zeroTask\<lparr>timeRoundRobin := 1, cntRoundRobin := 1, waitForAnyEvent := True\<rparr>,
                 zeroTask\<lparr>timeRoundRobin := 1, cntRoundRobin := 1, postedEventVec := 0x8000,
                          waitForAnyEvent := True\<rparr>,
                 zeroTask\<lparr>timeRoundRobin := 1, cntRoundRobin := 1, postedEventVec := 0x8000,
                          waitForAnyEvent := True\<rparr>,
                 zeroTask\<lparr>waitForAnyEvent := True\<rparr>],
      pActiveTask = TaskPtr 1, pSuspendedTask = TaskPtr 0,
      pDueTaskAryAry = [[TaskPtr 1, TaskPtr 0, TaskPtr 2], [Null, Null, Null]],
      noDueTasksAry = [3, 0],
      pSuspendedTaskAry = [TaskPtr 2, TaskPtr 2, TaskPtr 2], noSuspendedTasks = 0\<rparr>"

text \<open>
  The single task of \<^term>\<open>cfg1\<close> suspends itself after the first tic with a timeout
  of zero: waiting for event 0 or the delay timer, for all events of a mask that holds
  the delay timer only, for events 0 and 1 together or the delay timer, and for the delay
  timer alone.  The odd states are those after a call of \<^verbatim>\<open>rtos_setEvent\<close> with event 0.
\<close>

definition stateD0 :: "8 word kernel" where
  "stateD0 = \<lparr>time = 0,
      taskAry = [zeroTask\<lparr>cntDelay := 1, eventMask := 0x8001, waitForAnyEvent := True\<rparr>,
                 zeroTask\<lparr>waitForAnyEvent := True\<rparr>],
      pActiveTask = TaskPtr 1, pSuspendedTask = TaskPtr 0,
      pDueTaskAryAry = [[TaskPtr 0]], noDueTasksAry = [0],
      pSuspendedTaskAry = [TaskPtr 0], noSuspendedTasks = 1\<rparr>"

definition stateD1 :: "8 word kernel" where
  "stateD1 = \<lparr>time = 0,
      taskAry = [zeroTask\<lparr>cntDelay := 1, waitForAnyEvent := True\<rparr>,
                 zeroTask\<lparr>waitForAnyEvent := True\<rparr>],
      pActiveTask = TaskPtr 0, pSuspendedTask = TaskPtr 1,
      pDueTaskAryAry = [[TaskPtr 0]], noDueTasksAry = [1],
      pSuspendedTaskAry = [TaskPtr 0], noSuspendedTasks = 0\<rparr>"

definition stateD2 :: "8 word kernel" where
  "stateD2 = \<lparr>time = 0,
      taskAry = [zeroTask\<lparr>cntDelay := 1, eventMask := 0x8000\<rparr>,
                 zeroTask\<lparr>waitForAnyEvent := True\<rparr>],
      pActiveTask = TaskPtr 1, pSuspendedTask = TaskPtr 0,
      pDueTaskAryAry = [[TaskPtr 0]], noDueTasksAry = [0],
      pSuspendedTaskAry = [TaskPtr 0], noSuspendedTasks = 1\<rparr>"

definition stateD3 :: "8 word kernel" where
  "stateD3 = \<lparr>time = 0,
      taskAry = [zeroTask\<lparr>cntDelay := 1\<rparr>,
                 zeroTask\<lparr>waitForAnyEvent := True\<rparr>],
      pActiveTask = TaskPtr 0, pSuspendedTask = TaskPtr 1,
      pDueTaskAryAry = [[TaskPtr 0]], noDueTasksAry = [1],
      pSuspendedTaskAry = [TaskPtr 0], noSuspendedTasks = 0\<rparr>"

definition stateD4 :: "8 word kernel" where
  "stateD4 = \<lparr>time = 0,
      taskAry = [zeroTask\<lparr>cntDelay := 1, eventMask := 0x8003\<rparr>,
                 zeroTask\<lparr>waitForAnyEvent := True\<rparr>],
      pActiveTask = TaskPtr 1, pSuspendedTask = TaskPtr 0,
      pDueTaskAryAry = [[TaskPtr 0]], noDueTasksAry = [0],
      pSuspendedTaskAry = [TaskPtr 0], noSuspendedTasks = 1\<rparr>"

definition stateD5 :: "8 word kernel" where
  "stateD5 = \<lparr>time = 0,
      taskAry = [zeroTask\<lparr>cntDelay := 1, postedEventVec := 1, eventMask := 0x8003\<rparr>,
                 zeroTask\<lparr>waitForAnyEvent := True\<rparr>],
      pActiveTask = TaskPtr 1, pSuspendedTask = TaskPtr 0,
      pDueTaskAryAry = [[TaskPtr 0]], noDueTasksAry = [0],
      pSuspendedTaskAry = [TaskPtr 0], noSuspendedTasks = 1\<rparr>"

definition stateD6 :: "8 word kernel" where
  "stateD6 = \<lparr>time = 0,
      taskAry = [zeroTask\<lparr>cntDelay := 1, eventMask := 0x8000, waitForAnyEvent := True\<rparr>,
                 zeroTask\<lparr>waitForAnyEvent := True\<rparr>],
      pActiveTask = TaskPtr 1, pSuspendedTask = TaskPtr 0,
      pDueTaskAryAry = [[TaskPtr 0]], noDueTasksAry = [0],
      pSuspendedTaskAry = [TaskPtr 0], noSuspendedTasks = 1\<rparr>"

section \<open>Basic facts\<close>

lemma and_or_nonzero1: "(x :: 'a::len word) AND b \<noteq> 0 \<Longrightarrow> x AND (b OR c) \<noteq> 0"
  by (auto simp: bit_eq_iff bit_and_iff bit_or_iff)

lemma and_or_nonzero2: "(x :: 'a::len word) AND c \<noteq> 0 \<Longrightarrow> x AND (b OR c) \<noteq> 0"
  by (auto simp: bit_eq_iff bit_and_iff bit_or_iff)

lemma scanSuspended_step:
  "idx < noSuspendedTasks s \<Longrightarrow> rd (pSuspendedTaskAry s) idx = Some pT \<Longrightarrow>
   getTask s pT = Some t \<Longrightarrow>
   scanSuspended cfg idx b s =
     (if releaseTest cfg t then makeDue cfg idx pT s \<bind> scanSuspended cfg idx True
      else scanSuspended cfg (idx + 1) b s)"
  by (subst scanSuspended.simps) simp

lemma releaseTest_timer:
  assumes a: "\<not> waitForAnyEvent t \<and>
        (postedEventVec t AND eventMask t AND RTOS_EVT_ABSOLUTE_TIMER cfg \<noteq> 0
         \<or> postedEventVec t AND eventMask t AND RTOS_EVT_DELAY_TIMER cfg \<noteq> 0)"
  shows "releaseTest cfg t"
proof -
  from a have "postedEventVec t AND eventMask t AND TIMER_EVT_MASK cfg \<noteq> 0"
    unfolding TIMER_EVT_MASK_def
    using and_or_nonzero1[of "postedEventVec t AND eventMask t"
            "RTOS_EVT_ABSOLUTE_TIMER cfg" "RTOS_EVT_DELAY_TIMER cfg"]
      and_or_nonzero2[of "postedEventVec t AND eventMask t"
            "RTOS_EVT_DELAY_TIMER cfg" "RTOS_EVT_ABSOLUTE_TIMER cfg"]
    by (auto simp: and.assoc)
  with a show "releaseTest cfg t" by (simp add: releaseTest_def Let_def)
qed

section \<open>The release test\<close>

text \<open>
  Claim C1.  The test that the scan of the suspended tasks applies to a task object is
  true if and only if the task waits for any event and some event is posted, or it waits
  for all events and either the posted events equal the mask on all bits that are not
  timer bits or a timer bit of the mask is posted.  In particular a task that waits for
  all events is released as soon as a timer bit of its mask is posted, whatever other
  bits are missing.  The third part says that this test decides each step of the scan.
\<close>

theorem release_test_formula:
  "(releaseTest cfg t \<longleftrightarrow>
      (waitForAnyEvent t \<and> postedEventVec t \<noteq> 0)
      \<or> (\<not> waitForAnyEvent t
          \<and> (((postedEventVec t XOR eventMask t)
                  AND NOT (RTOS_EVT_ABSOLUTE_TIMER cfg OR RTOS_EVT_DELAY_TIMER cfg)) = 0
               \<or> (postedEventVec t AND eventMask t
                     AND (RTOS_EVT_ABSOLUTE_TIMER cfg OR RTOS_EVT_DELAY_TIMER cfg)) \<noteq> 0)))
   \<and> (\<not> waitForAnyEvent t \<and>
        (postedEventVec t AND eventMask t AND RTOS_EVT_ABSOLUTE_TIMER cfg \<noteq> 0
         \<or> postedEventVec t AND eventMask t AND RTOS_EVT_DELAY_TIMER cfg \<noteq> 0)
        \<longrightarrow> releaseTest cfg t)
   \<and> (idx < noSuspendedTasks s \<and> rd (pSuspendedTaskAry s) idx = Some pT
        \<and> getTask s pT = Some t
        \<longrightarrow> scanSuspended cfg idx b s =
             (if releaseTest cfg t then makeDue cfg idx pT s \<bind> scanSuspended cfg idx True
              else scanSuspended cfg (idx + 1) b s))"
proof (intro conjI impI)
  show "releaseTest cfg t \<longleftrightarrow>
      (waitForAnyEvent t \<and> postedEventVec t \<noteq> 0)
      \<or> (\<not> waitForAnyEvent t
          \<and> (((postedEventVec t XOR eventMask t)
                  AND NOT (RTOS_EVT_ABSOLUTE_TIMER cfg OR RTOS_EVT_DELAY_TIMER cfg)) = 0
               \<or> (postedEventVec t AND eventMask t
                     AND (RTOS_EVT_ABSOLUTE_TIMER cfg OR RTOS_EVT_DELAY_TIMER cfg)) \<noteq> 0))"
    by (simp add: releaseTest_def TIMER_EVT_MASK_def Let_def)
next
  assume "\<not> waitForAnyEvent t \<and>
        (postedEventVec t AND eventMask t AND RTOS_EVT_ABSOLUTE_TIMER cfg \<noteq> 0
         \<or> postedEventVec t AND eventMask t AND RTOS_EVT_DELAY_TIMER cfg \<noteq> 0)"
  then show "releaseTest cfg t" by (rule releaseTest_timer)
next
  assume "idx < noSuspendedTasks s \<and> rd (pSuspendedTaskAry s) idx = Some pT
        \<and> getTask s pT = Some t"
  then show "scanSuspended cfg idx b s =
             (if releaseTest cfg t then makeDue cfg idx pT s \<bind> scanSuspended cfg idx True
              else scanSuspended cfg (idx + 1) b s)"
    by (intro scanSuspended_step) simp_all
qed

theorem release_test_formula_witness:
  "\<not> waitForAnyEvent taskX
   \<and> postedEventVec taskX AND eventMask taskX AND RTOS_EVT_DELAY_TIMER cfg1 \<noteq> 0
   \<and> (postedEventVec taskX XOR eventMask taskX)
        AND NOT (RTOS_EVT_ABSOLUTE_TIMER cfg1 OR RTOS_EVT_DELAY_TIMER cfg1) \<noteq> 0
   \<and> releaseTest cfg1 taskX
   \<and> 0 < noSuspendedTasks stateX \<and> rd (pSuspendedTaskAry stateX) 0 = Some (TaskPtr 0)
   \<and> getTask stateX (TaskPtr 0) = Some taskX
   \<and> scanSuspended cfg1 0 False stateX
        = makeDue cfg1 0 (TaskPtr 0) stateX \<bind> scanSuspended cfg1 0 True"
proof -
  have h1: "\<not> waitForAnyEvent taskX"
    and h2: "postedEventVec taskX AND eventMask taskX AND RTOS_EVT_DELAY_TIMER cfg1 \<noteq> 0"
    and h3: "(postedEventVec taskX XOR eventMask taskX)
        AND NOT (RTOS_EVT_ABSOLUTE_TIMER cfg1 OR RTOS_EVT_DELAY_TIMER cfg1) \<noteq> 0"
    by (simp_all add: taskX_def cfg1_def)
  have h4: "0 < noSuspendedTasks stateX \<and> rd (pSuspendedTaskAry stateX) 0 = Some (TaskPtr 0)
      \<and> getTask stateX (TaskPtr 0) = Some taskX"
    by (simp add: stateX_def rd_def getTask_def)
  note T = release_test_formula [of cfg1 taskX 0 stateX "TaskPtr 0" False]
  from T h1 h2 have r: "releaseTest cfg1 taskX" by blast
  from T h4 have "scanSuspended cfg1 0 False stateX =
             (if releaseTest cfg1 taskX
              then makeDue cfg1 0 (TaskPtr 0) stateX \<bind> scanSuspended cfg1 0 True
              else scanSuspended cfg1 (0 + 1) False stateX)" by blast
  with r have "scanSuspended cfg1 0 False stateX
        = makeDue cfg1 0 (TaskPtr 0) stateX \<bind> scanSuspended cfg1 0 True"
    by (simp only: if_True)
  with h1 h2 h3 h4 r show ?thesis by blast
qed

section \<open>The resume condition of a task\<close>

text \<open>
  Claim C3.  If the event mask contains the absolute timer event, then
  \<^verbatim>\<open>storeResumeCondition\<close> advances the due time by the timeout, in the cyclic arithmetic
  of the system time.  The overrun counter is incremented, unless it has reached 255,
  if and only if the new due time minus the system time is not positive as a signed
  number, and then the due time is set to the system time plus one.
\<close>

theorem absolute_timer_resume_condition:
  assumes "evMask AND RTOS_EVT_ABSOLUTE_TIMER cfg \<noteq> 0"
  shows "timeDueAt (storeResumeCondition cfg now pT evMask all timeout) =
           (if sint (timeDueAt pT + timeout - now) \<le> 0 then now + 1
            else timeDueAt pT + timeout)
       \<and> cntOverrun (storeResumeCondition cfg now pT evMask all timeout) =
           (if sint (timeDueAt pT + timeout - now) \<le> 0 \<and> cntOverrun pT < 255
            then cntOverrun pT + 1 else cntOverrun pT)
       \<and> unat (cntOverrun (storeResumeCondition cfg now pT evMask all timeout)) =
           (if sint (timeDueAt pT + timeout - now) \<le> 0
            then min 255 (unat (cntOverrun pT) + 1) else unat (cntOverrun pT))
       \<and> cntDelay (storeResumeCondition cfg now pT evMask all timeout) = cntDelay pT"
proof -
  have u: "unat (cntOverrun pT + 1) = unat (cntOverrun pT) + 1" if "cntOverrun pT < 255"
    using that by (simp add: unat_word_ariths word_less_nat_alt)
  have v: "unat (cntOverrun pT) = 255" if "\<not> cntOverrun pT < 255"
    using that unsigned_less[of "cntOverrun pT", where ?'a = nat]
    by (simp add: word_less_nat_alt)
  have w: "unat (cntOverrun pT) < 255" if "cntOverrun pT < 255"
    using that by (simp add: word_less_nat_alt)
  show ?thesis
    using assms u v w by (auto simp: storeResumeCondition_def Let_def)
qed

text \<open>
  The witness is scenario 5 of the specification: the time is eight bits wide, the task
  was due at 10, it asks for 100 tics more when the time is 200 already.
\<close>

theorem absolute_timer_resume_condition_witness:
  "(0x4000 :: 16 word) AND RTOS_EVT_ABSOLUTE_TIMER cfg1 \<noteq> 0
   \<and> timeDueAt (storeResumeCondition cfg1 (200 :: 8 word) (taskX\<lparr>timeDueAt := 10\<rparr>)
                  0x4000 False 100) = 201
   \<and> cntOverrun (storeResumeCondition cfg1 (200 :: 8 word) (taskX\<lparr>timeDueAt := 10\<rparr>)
                  0x4000 False 100) = 1"
proof -
  have h: "(0x4000 :: 16 word) AND RTOS_EVT_ABSOLUTE_TIMER cfg1 \<noteq> 0"
    by (simp add: cfg1_def)
  from absolute_timer_resume_condition [OF h, of 200 "taskX\<lparr>timeDueAt := 10\<rparr>" False 100] h
  show ?thesis by (simp add: taskX_def)
qed

text \<open>
  If the event mask does not contain the absolute timer event, then
  \<^verbatim>\<open>storeResumeCondition\<close> loads the delay counter with the timeout plus one, or with
  the timeout itself if the increment wraps to zero.  The counter is never zero
  afterwards.  With a timeout of zero it is one, and the first timer tic that serves the
  task posts the delay event.
\<close>

lemma storeResumeCondition_delay:
  assumes "evMask AND RTOS_EVT_ABSOLUTE_TIMER cfg = 0"
  shows "cntDelay (storeResumeCondition cfg now pT evMask all timeout) =
           (if timeout + 1 = 0 then timeout else timeout + 1)
       \<and> cntDelay (storeResumeCondition cfg now pT evMask all timeout) \<noteq> 0
       \<and> timeDueAt (storeResumeCondition cfg now pT evMask all timeout) = timeDueAt pT
       \<and> cntOverrun (storeResumeCondition cfg now pT evMask all timeout) = cntOverrun pT
       \<and> (timeout = 0 \<longrightarrow>
            cntDelay (storeResumeCondition cfg now pT evMask all timeout) = 1
          \<and> cntDelay (serveTimers cfg tic
                        (storeResumeCondition cfg now pT evMask all timeout)) = 0
          \<and> postedEventVec (serveTimers cfg tic
                              (storeResumeCondition cfg now pT evMask all timeout))
              AND (RTOS_EVT_DELAY_TIMER cfg AND evMask) = RTOS_EVT_DELAY_TIMER cfg AND evMask)"
proof -
  have nz: "timeout \<noteq> 0" if "timeout + 1 = 0"
    using that by auto
  have ab: "(x OR y) AND y = (y :: 16 word)" for x y
    by (auto simp: bit_eq_iff bit_and_iff bit_or_iff)
  show ?thesis
    using assms nz by (auto simp: storeResumeCondition_def serveTimers_def Let_def ab)
qed

section \<open>Memory access and the elementary iterations\<close>

lemma rd_Some_iff: "rd xs i = Some v \<longleftrightarrow> i < length xs \<and> v = xs ! i"
  by (auto simp: rd_def)

lemma wr_Some_iff: "wr xs i v = Some ys \<longleftrightarrow> i < length xs \<and> ys = xs[i := v]"
  by (auto simp: wr_def)

lemma getTask_Some_iff:
  "getTask s p = Some t \<longleftrightarrow> (\<exists>i. p = TaskPtr i \<and> i < length (taskAry s) \<and> t = taskAry s ! i)"
  by (auto simp: getTask_def rd_Some_iff split: taskptr.splits)

lemma putTask_Some_iff:
  "putTask s p t = Some s1 \<longleftrightarrow>
     (\<exists>i. p = TaskPtr i \<and> i < length (taskAry s) \<and> s1 = s\<lparr>taskAry := (taskAry s)[i := t]\<rparr>)"
  by (cases p) (auto simp: putTask_def wr_def split: bind_splits)

lemma dec8_pos: "0 < n \<Longrightarrow> n < 256 \<Longrightarrow> dec8 n = n - 1"
proof -
  assume a: "0 < n" "n < 256"
  then have "n + 255 = (n - 1) + 256" by simp
  then have "(n + 255) mod 256 = (n - 1) mod 256" by (metis mod_add_self2)
  with a show ?thesis by (simp add: dec8_def)
qed

lemma inc8_small: "n < 255 \<Longrightarrow> inc8 n = n + 1"
  by (simp add: inc8_def)

lemma shiftDown_nth:
  "shiftDown a u n = Some b \<longleftrightarrow>
     (if u < n then n < length a \<and> length b = length a \<and>
           (\<forall>i < length a. b ! i = (if u \<le> i \<and> i < n then a ! (i + 1) else a ! i))
      else b = a)"
proof (induction a u n arbitrary: b rule: shiftDown.induct)
  case (1 a u n)
  show ?case
  proof (cases "u < n")
    case False
    then show ?thesis by (subst shiftDown.simps) auto
  next
    case True
    show ?thesis
    proof (cases "u + 1 < length a")
      case False
      with True show ?thesis by (subst shiftDown.simps) (auto simp: rd_def)
    next
      case l: True
      then have r: "rd a (u + 1) = Some (a ! (u + 1))" by (simp add: rd_def)
      have s: "shiftDown a u n = shiftDown (a[u := a ! (u + 1)]) (u + 1) n"
        using True r by (subst shiftDown.simps) simp
      note IH = 1[OF True r, of b]
      have eq: "(if u + 1 \<le> i \<and> i < n then a[u := a ! (u + 1)] ! (i + 1) else a[u := a ! (u + 1)] ! i)
              = (if u \<le> i \<and> i < n then a ! (i + 1) else a ! i)" if "i < length a" for i
        using that True by (cases "i = u") (simp_all add: nth_list_update)
      show ?thesis
      proof (cases "u + 1 < n")
        case True
        have "shiftDown a u n = Some b \<longleftrightarrow>
               n < length a \<and> length b = length a \<and>
               (\<forall>i<length a. b ! i = (if u + 1 \<le> i \<and> i < n then a[u := a ! (u + 1)] ! (i + 1)
                                         else a[u := a ! (u + 1)] ! i))"
          using IH s True by simp
        also have "\<dots> \<longleftrightarrow> n < length a \<and> length b = length a \<and>
               (\<forall>i<length a. b ! i = (if u \<le> i \<and> i < n then a ! (i + 1) else a ! i))"
          using eq by simp
        finally show ?thesis using \<open>u < n\<close> by simp
      next
        case False
        with \<open>u < n\<close> have n: "n = u + 1" by simp
        have "shiftDown a u n = Some b \<longleftrightarrow> b = a[u := a ! (u + 1)]"
          using IH s n by simp
        also have "\<dots> \<longleftrightarrow> length b = length a \<and>
               (\<forall>i<length a. b ! i = (if u + 1 \<le> i \<and> i < n then a[u := a ! (u + 1)] ! (i + 1)
                                         else a[u := a ! (u + 1)] ! i))"
          using n by (auto intro!: nth_equalityI)
        also have "\<dots> \<longleftrightarrow> length b = length a \<and>
               (\<forall>i<length a. b ! i = (if u \<le> i \<and> i < n then a ! (i + 1) else a ! i))"
          using eq by simp
        finally show ?thesis using \<open>u < n\<close> l n by simp
      qed
    qed
  qed
qed

lemma shiftDown_length: "shiftDown a u n = Some b \<Longrightarrow> length b = length a"
  by (auto simp: shiftDown_nth split: if_splits)

lemma shiftDown_take:
  assumes "shiftDown a u n = Some b" "u \<le> n"
  shows "take n b = take u a @ drop (Suc u) (take (Suc n) a)"
proof (cases "u < n")
  case False
  with assms have "u = n" "b = a" by (auto simp: shiftDown_nth)
  then show ?thesis by simp
next
  case True
  with assms have n: "n < length a" and l: "length b = length a"
    and nth: "\<And>i. i < length a \<Longrightarrow> b ! i = (if u \<le> i \<and> i < n then a ! (i + 1) else a ! i)"
    by (auto simp: shiftDown_nth)
  show ?thesis
  proof (rule nth_equalityI)
    show "length (take n b) = length (take u a @ drop (Suc u) (take (Suc n) a))"
      using n l True by simp
  next
    fix i assume "i < length (take n b)"
    then have i: "i < n" by simp
    with n nth[of i] True show "take n b ! i = (take u a @ drop (Suc u) (take (Suc n) a)) ! i"
      by (auto simp: nth_append)
  qed
qed

lemma forSuspended_step:
  "forSuspended body idx s =
     (if idx < noSuspendedTasks s then
        do { pT \<leftarrow> rd (pSuspendedTaskAry s) idx;
             t \<leftarrow> getTask s pT;
             s1 \<leftarrow> putTask s pT (body t);
             forSuspended body (idx + 1) s1 }
      else Some s)"
  by (subst forSuspended.simps) simp

lemma forSuspended_frame:
  "forSuspended body idx s = Some s1 \<Longrightarrow>
   s1 = s\<lparr>taskAry := taskAry s1\<rparr> \<and> length (taskAry s1) = length (taskAry s)"
proof (induction body idx s rule: forSuspended.induct)
  case (1 body idx s)
  show ?case
  proof (cases "idx < noSuspendedTasks s")
    case False
    with 1(2) show ?thesis by (simp add: forSuspended_step)
  next
    case True
    with 1(2) obtain pT t s2 where
      a: "rd (pSuspendedTaskAry s) idx = Some pT" "getTask s pT = Some t"
         "putTask s pT (body t) = Some s2" "forSuspended body (idx + 1) s2 = Some s1"
      by (subst (asm) forSuspended_step) (auto split: bind_splits)
    from 1(1)[OF True a] a(3) show ?thesis
      by (auto simp: putTask_Some_iff)
  qed
qed

lemma drop_take_nth:
  "idx < n \<Longrightarrow> idx < length xs \<Longrightarrow> drop idx (take n xs) = xs ! idx # drop (Suc idx) (take n xs)"
  using Cons_nth_drop_Suc[of idx "take n xs"] by simp

lemma forSuspended_proj:
  "forSuspended body idx s = Some s1 \<Longrightarrow> (\<And>t. Q (body t) = Q t) \<Longrightarrow>
   map Q (taskAry s1) = map Q (taskAry s)"
proof (induction body idx s rule: forSuspended.induct)
  case (1 body idx s)
  show ?case
  proof (cases "idx < noSuspendedTasks s")
    case False
    with 1(2) show ?thesis by (simp add: forSuspended_step)
  next
    case True
    with 1(2) obtain pT t s2 where
      a: "rd (pSuspendedTaskAry s) idx = Some pT" "getTask s pT = Some t"
         "putTask s pT (body t) = Some s2" "forSuspended body (idx + 1) s2 = Some s1"
      by (subst (asm) forSuspended_step) (auto split: bind_splits)
    have "map Q (taskAry s2) = map Q (taskAry s)"
      using a(2,3) 1(3) by (auto simp: putTask_Some_iff getTask_Some_iff map_update list_update_same_conv)
    with 1(1)[OF True a] 1(3) show ?thesis by simp
  qed
qed

lemma forSuspended_idem:
  "forSuspended body idx s = Some s1 \<Longrightarrow> (\<And>t. body (body t) = body t) \<Longrightarrow>
   i < length (taskAry s) \<Longrightarrow>
     taskAry s1 ! i = (if TaskPtr i \<in> set (drop idx (suspList s)) then body (taskAry s ! i)
                       else taskAry s ! i)"
proof (induction body idx s rule: forSuspended.induct)
  case (1 body idx s)
  show ?case
  proof (cases "idx < noSuspendedTasks s")
    case False
    with 1(2) show ?thesis by (simp add: forSuspended_step suspList_def)
  next
    case True
    with 1(2) obtain pT t s2 where
      a: "rd (pSuspendedTaskAry s) idx = Some pT" "getTask s pT = Some t"
         "putTask s pT (body t) = Some s2" "forSuspended body (idx + 1) s2 = Some s1"
      by (subst (asm) forSuspended_step) (auto split: bind_splits)
    from a obtain j where j: "pT = TaskPtr j" "j < length (taskAry s)" "t = taskAry s ! j"
      "s2 = s\<lparr>taskAry := (taskAry s)[j := body t]\<rparr>"
      by (auto simp: putTask_Some_iff getTask_Some_iff)
    from a(1) True have d: "drop idx (suspList s) = pT # drop (idx + 1) (suspList s)"
      by (simp add: suspList_def rd_Some_iff drop_take_nth)
    have s2: "suspList s2 = suspList s" using j by (simp add: suspList_def)
    from 1(1)[OF True a 1(3)] 1(4) j have
      "taskAry s1 ! i = (if TaskPtr i \<in> set (drop (idx + 1) (suspList s2)) then body (taskAry s2 ! i)
                       else taskAry s2 ! i)" by simp
    then show ?thesis
      using j s2 d 1(3) 1(4) by (cases "i = j") auto
  qed
qed

lemma forSuspended_distinct:
  "forSuspended body idx s = Some s1 \<Longrightarrow> distinct (suspList s) \<Longrightarrow>
   i < length (taskAry s) \<Longrightarrow>
     taskAry s1 ! i = (if TaskPtr i \<in> set (drop idx (suspList s)) then body (taskAry s ! i)
                       else taskAry s ! i)"
proof (induction body idx s rule: forSuspended.induct)
  case (1 body idx s)
  show ?case
  proof (cases "idx < noSuspendedTasks s")
    case False
    with 1(2) show ?thesis by (simp add: forSuspended_step suspList_def)
  next
    case True
    with 1(2) obtain pT t s2 where
      a: "rd (pSuspendedTaskAry s) idx = Some pT" "getTask s pT = Some t"
         "putTask s pT (body t) = Some s2" "forSuspended body (idx + 1) s2 = Some s1"
      by (subst (asm) forSuspended_step) (auto split: bind_splits)
    from a obtain j where j: "pT = TaskPtr j" "j < length (taskAry s)" "t = taskAry s ! j"
      "s2 = s\<lparr>taskAry := (taskAry s)[j := body t]\<rparr>"
      by (auto simp: putTask_Some_iff getTask_Some_iff)
    from a(1) True have d: "drop idx (suspList s) = pT # drop (idx + 1) (suspList s)"
      by (simp add: suspList_def rd_Some_iff drop_take_nth)
    have s2: "suspList s2 = suspList s" using j by (simp add: suspList_def)
    have "distinct (drop idx (suspList s))" using 1(3) by simp
    with d have nin: "pT \<notin> set (drop (idx + 1) (suspList s))" by simp
    from 1(1)[OF True a] 1(3) 1(4) j s2 have
      "taskAry s1 ! i = (if TaskPtr i \<in> set (drop (idx + 1) (suspList s2)) then body (taskAry s2 ! i)
                       else taskAry s2 ! i)" by simp
    then show ?thesis
      using j s2 d nin 1(4) by (cases "i = j") auto
  qed
qed

section \<open>A task becomes due\<close>

lemma makeDue_SomeE:
  assumes "makeDue cfg idx pT s = Some s1"
  obtains j a where "pT = TaskPtr j" "j < length (taskAry s)"
     "prioClass (taskAry s ! j) < length (noDueTasksAry s)"
     "prioClass (taskAry s ! j) < length (pDueTaskAryAry s)"
     "noDueTasksAry s ! prioClass (taskAry s ! j)
        < length (pDueTaskAryAry s ! prioClass (taskAry s ! j))"
     "shiftDown (pSuspendedTaskAry s) idx (dec8 (noSuspendedTasks s)) = Some a"
     "s1 = s\<lparr>taskAry := (taskAry s)[j :=
                  (if RTOS_ROUND_ROBIN_MODE_SUPPORTED cfg
                   then (taskAry s ! j)\<lparr>eventMask := 0, cntRoundRobin := timeRoundRobin (taskAry s ! j)\<rparr>
                   else (taskAry s ! j)\<lparr>eventMask := 0\<rparr>)],
              pDueTaskAryAry := (pDueTaskAryAry s)[prioClass (taskAry s ! j) :=
                  (pDueTaskAryAry s ! prioClass (taskAry s ! j))
                     [noDueTasksAry s ! prioClass (taskAry s ! j) := pT]],
              noDueTasksAry := (noDueTasksAry s)[prioClass (taskAry s ! j) :=
                  inc8 (noDueTasksAry s ! prioClass (taskAry s ! j))],
              noSuspendedTasks := dec8 (noSuspendedTasks s),
              pSuspendedTaskAry := a\<rparr>"
  using assms
  by (auto simp: makeDue_def Let_def getTask_Some_iff putTask_Some_iff rd_Some_iff wr_Some_iff
           split: bind_splits if_splits)

lemma distinct_remove_nth:
  assumes "distinct L" "idx < length L"
  shows "distinct (take idx L @ drop (Suc idx) L)"
    and "L ! idx \<notin> set (take idx L @ drop (Suc idx) L)"
    and "set (take idx L @ drop (Suc idx) L) = set L - {L ! idx}"
proof -
  have L: "L = take idx L @ L ! idx # drop (Suc idx) L"
    using assms(2) by (rule id_take_nth_drop)
  have d: "distinct (take idx L @ L ! idx # drop (Suc idx) L)"
    using assms(1) L by simp
  from d show "distinct (take idx L @ drop (Suc idx) L)" by auto
  from d show n: "L ! idx \<notin> set (take idx L @ drop (Suc idx) L)" by auto
  have "set L = set (take idx L @ L ! idx # drop (Suc idx) L)" using L by simp
  with n show "set (take idx L @ drop (Suc idx) L) = set L - {L ! idx}" by auto
qed

lemma shapeD:
  assumes "shape cfg s"
  shows "validConfig cfg" "length (taskAry s) = RTOS_NO_TASKS cfg + 1"
    "length (pSuspendedTaskAry s) = RTOS_NO_TASKS cfg"
    "length (noDueTasksAry s) = RTOS_NO_PRIO_CLASSES cfg"
    "length (pDueTaskAryAry s) = RTOS_NO_PRIO_CLASSES cfg"
    "c < RTOS_NO_PRIO_CLASSES cfg \<Longrightarrow>
       length (pDueTaskAryAry s ! c) = RTOS_MAX_NO_TASKS_IN_PRIO_CLASS cfg"
    "c < RTOS_NO_PRIO_CLASSES cfg \<Longrightarrow>
       noDueTasksAry s ! c \<le> RTOS_MAX_NO_TASKS_IN_PRIO_CLASS cfg"
    "noSuspendedTasks s \<le> RTOS_NO_TASKS cfg"
    "RTOS_NO_TASKS cfg \<le> 255" "RTOS_MAX_NO_TASKS_IN_PRIO_CLASS cfg \<le> 255"
  using assms by (auto simp: shape_def validConfig_def)

lemma listsOkD:
  assumes "listsOk cfg s"
  shows "shape cfg s" "distinct (suspList s)"
    "p \<in> set (suspList s) \<Longrightarrow> \<exists>i < RTOS_NO_TASKS cfg. p = TaskPtr i"
    "c < RTOS_NO_PRIO_CLASSES cfg \<Longrightarrow> distinct (dueList s c)"
    "c < RTOS_NO_PRIO_CLASSES cfg \<Longrightarrow> p \<in> set (dueList s c) \<Longrightarrow> p \<notin> set (suspList s)"
    "c < RTOS_NO_PRIO_CLASSES cfg \<Longrightarrow> p \<in> set (dueList s c) \<Longrightarrow>
       \<exists>i < RTOS_NO_TASKS cfg. p = TaskPtr i \<and> prioClass (taskAry s ! i) = c"
    "RTOS_ROUND_ROBIN_MODE_SUPPORTED cfg \<Longrightarrow> cntRoundRobin (taskAry s ! RTOS_NO_TASKS cfg) = 0"
  using assms by (auto simp: listsOk_def)

lemma makeDue_abs:
  assumes ok: "listsOk cfg s" and idx: "idx < noSuspendedTasks s"
    and pT: "pT = pSuspendedTaskAry s ! idx" and m: "makeDue cfg idx pT s = Some s1"
  shows "listsOk cfg s1"
    and "suspList s1 = take idx (suspList s) @ drop (Suc idx) (suspList s)"
    and "\<And>c. c < RTOS_NO_PRIO_CLASSES cfg \<Longrightarrow>
          dueList s1 c = (if c = prioOf s pT then dueList s c @ [pT] else dueList s c)"
    and "prioOf s pT < RTOS_NO_PRIO_CLASSES cfg"
    and "pActiveTask s1 = pActiveTask s" and "pSuspendedTask s1 = pSuspendedTask s"
    and "time s1 = time s"
    and "map prioClass (taskAry s1) = map prioClass (taskAry s)"
    and "map postedEventVec (taskAry s1) = map postedEventVec (taskAry s)"
    and "\<And>i. TaskPtr i \<noteq> pT \<Longrightarrow> taskAry s1 ! i = taskAry s ! i"
proof -
  note sh = shapeD[OF listsOkD(1)[OF ok]]
  let ?L = "suspList s"
  have lenL: "length ?L = noSuspendedTasks s" using sh idx by (simp add: suspList_def)
  have pTL: "pT = ?L ! idx" using pT idx by (simp add: suspList_def)
  have pTin: "pT \<in> set ?L" using pTL idx lenL by simp
  from m obtain j a where
    j: "pT = TaskPtr j" "j < length (taskAry s)"
    and pr: "prioClass (taskAry s ! j) < length (noDueTasksAry s)"
    and n: "noDueTasksAry s ! prioClass (taskAry s ! j)
        < length (pDueTaskAryAry s ! prioClass (taskAry s ! j))"
    and a: "shiftDown (pSuspendedTaskAry s) idx (dec8 (noSuspendedTasks s)) = Some a"
    and s1: "s1 = s\<lparr>taskAry := (taskAry s)[j :=
                  (if RTOS_ROUND_ROBIN_MODE_SUPPORTED cfg
                   then (taskAry s ! j)\<lparr>eventMask := 0, cntRoundRobin := timeRoundRobin (taskAry s ! j)\<rparr>
                   else (taskAry s ! j)\<lparr>eventMask := 0\<rparr>)],
              pDueTaskAryAry := (pDueTaskAryAry s)[prioClass (taskAry s ! j) :=
                  (pDueTaskAryAry s ! prioClass (taskAry s ! j))
                     [noDueTasksAry s ! prioClass (taskAry s ! j) := pT]],
              noDueTasksAry := (noDueTasksAry s)[prioClass (taskAry s ! j) :=
                  inc8 (noDueTasksAry s ! prioClass (taskAry s ! j))],
              noSuspendedTasks := dec8 (noSuspendedTasks s),
              pSuspendedTaskAry := a\<rparr>"
    by (rule makeDue_SomeE)
  define pc where "pc = prioClass (taskAry s ! j)"
  define k where "k = noDueTasksAry s ! pc"
  have pcP: "pc < RTOS_NO_PRIO_CLASSES cfg" using pr sh by (simp add: pc_def)
  have prio: "prioOf s pT = pc" using j by (simp add: prioOf_def getTask_def rd_def pc_def)
  from listsOkD(3)[OF ok pTin] j have jN: "j < RTOS_NO_TASKS cfg" by auto
  have kM: "k < RTOS_MAX_NO_TASKS_IN_PRIO_CLASS cfg" using n sh(6)[OF pcP] by (simp add: k_def pc_def)
  then have inc: "inc8 k = Suc k" using sh by (simp add: inc8_small)
  have dec: "dec8 (noSuspendedTasks s) = noSuspendedTasks s - 1"
    using idx sh by (intro dec8_pos) auto
  have idxle: "idx \<le> noSuspendedTasks s - 1" using idx by simp
  have susp1: "suspList s1 = take idx ?L @ drop (Suc idx) ?L"
  proof -
    have "suspList s1 = take (noSuspendedTasks s - 1) a" using s1 dec by (simp add: suspList_def)
    also have "\<dots> = take idx (pSuspendedTaskAry s)
                  @ drop (Suc idx) (take (Suc (noSuspendedTasks s - 1)) (pSuspendedTaskAry s))"
      using a dec idxle by (simp add: shiftDown_take)
    also have "\<dots> = take idx ?L @ drop (Suc idx) ?L"
      using idx by (simp add: suspList_def min_def)
    finally show ?thesis .
  qed
  show "suspList s1 = take idx ?L @ drop (Suc idx) ?L" by (rule susp1)
  have due1: "dueList s1 c = (if c = pc then dueList s c @ [pT] else dueList s c)"
    if "c < RTOS_NO_PRIO_CLASSES cfg" for c
  proof (cases "c = pc")
    case False
    then show ?thesis using s1 by (simp add: dueList_def pc_def)
  next
    case True
    have "dueList s1 pc = take (Suc k) ((pDueTaskAryAry s ! pc)[k := pT])"
      using s1 pcP sh inc by (simp add: dueList_def pc_def k_def)
    also have "\<dots> = take k (pDueTaskAryAry s ! pc) @ [pT]"
      using kM sh(6)[OF pcP] by (simp add: take_Suc_conv_app_nth)
    finally show ?thesis using True by (simp add: dueList_def k_def)
  qed
  show "\<And>c. c < RTOS_NO_PRIO_CLASSES cfg \<Longrightarrow>
          dueList s1 c = (if c = prioOf s pT then dueList s c @ [pT] else dueList s c)"
    using due1 prio by simp
  show "prioOf s pT < RTOS_NO_PRIO_CLASSES cfg" using prio pcP by simp
  show "pActiveTask s1 = pActiveTask s" "pSuspendedTask s1 = pSuspendedTask s"
    "time s1 = time s" using s1 by simp_all
  show mp: "map prioClass (taskAry s1) = map prioClass (taskAry s)"
    using s1 j by (simp add: map_update list_update_same_conv)
  show "map postedEventVec (taskAry s1) = map postedEventVec (taskAry s)"
    using s1 j by (simp add: map_update list_update_same_conv)
  show nth1: "\<And>i. TaskPtr i \<noteq> pT \<Longrightarrow> taskAry s1 ! i = taskAry s ! i"
    using s1 j by simp
  have prio1: "prioClass (taskAry s1 ! i) = prioClass (taskAry s ! i)" if "i < length (taskAry s)" for i
    using mp that by (metis length_map nth_map)
  note rm = distinct_remove_nth[OF listsOkD(2)[OF ok], of idx]
  have rm1: "distinct (suspList s1)" "pT \<notin> set (suspList s1)" "set (suspList s1) = set ?L - {pT}"
    using rm idx lenL susp1 pTL by simp_all
  show "listsOk cfg s1"
    unfolding listsOk_def
  proof (intro conjI allI impI ballI)
    have A: "length (pDueTaskAryAry s1 ! c) = RTOS_MAX_NO_TASKS_IN_PRIO_CLASS cfg
             \<and> noDueTasksAry s1 ! c \<le> RTOS_MAX_NO_TASKS_IN_PRIO_CLASS cfg"
      if "c < RTOS_NO_PRIO_CLASSES cfg" for c
    proof (cases "c = pc")
      case True
      then show ?thesis using s1 sh(4,5) sh(6)[OF pcP] pcP kM inc
        by (simp add: pc_def[symmetric] k_def[symmetric])
    next
      case False
      then show ?thesis using s1 sh(6,7)[OF that]
        by (simp add: pc_def[symmetric] k_def[symmetric])
    qed
    have B: "length (taskAry s1) = length (taskAry s)"
      "length (pSuspendedTaskAry s1) = length (pSuspendedTaskAry s)"
      "length (noDueTasksAry s1) = length (noDueTasksAry s)"
      "length (pDueTaskAryAry s1) = length (pDueTaskAryAry s)"
      "noSuspendedTasks s1 = noSuspendedTasks s - 1"
      using s1 shiftDown_length[OF a] dec by simp_all
    show "shape cfg s1"
      unfolding shape_def using sh(1-5,8) A B by simp
    show "distinct (suspList s1)" by (rule rm1)
    show "\<exists>i<RTOS_NO_TASKS cfg. p = TaskPtr i" if "p \<in> set (suspList s1)" for p
      using that rm1 listsOkD(3)[OF ok, of p] by simp
    show "distinct (dueList s1 c)" if "c < RTOS_NO_PRIO_CLASSES cfg" for c
      using due1[OF that] listsOkD(4)[OF ok that] listsOkD(5)[OF ok that, of pT] pTin by auto
    show "p \<notin> set (suspList s1)"
      if "c < RTOS_NO_PRIO_CLASSES cfg" "p \<in> set (dueList s1 c)" for c p
      using due1[OF that(1)] that(2) listsOkD(5)[OF ok that(1), of p] rm1
      by (auto split: if_splits)
    show "\<exists>i<RTOS_NO_TASKS cfg. p = TaskPtr i \<and> prioClass (taskAry s1 ! i) = c"
      if "c < RTOS_NO_PRIO_CLASSES cfg" "p \<in> set (dueList s1 c)" for c p
    proof (cases "p = pT \<and> c = pc")
      case True
      then show ?thesis using j jN prio1[of j] by (auto simp: pc_def)
    next
      case False
      with due1[OF that(1)] that(2) have "p \<in> set (dueList s c)" by (auto split: if_splits)
      from listsOkD(6)[OF ok that(1) this] obtain i where
        "i < RTOS_NO_TASKS cfg" "p = TaskPtr i" "prioClass (taskAry s ! i) = c" by auto
      then show ?thesis using prio1[of i] sh by auto
    qed
    show "cntRoundRobin (taskAry s1 ! RTOS_NO_TASKS cfg) = 0"
      if "RTOS_ROUND_ROBIN_MODE_SUPPORTED cfg"
      using listsOkD(7)[OF ok that] nth1[of "RTOS_NO_TASKS cfg"] j jN by simp
  qed
qed

section \<open>The scan of the suspended tasks\<close>

lemma isReleased_cong:
  "taskAry s1 ! i = taskAry s ! i \<Longrightarrow> length (taskAry s1) = length (taskAry s) \<Longrightarrow>
   isReleased cfg s1 (TaskPtr i) = isReleased cfg s (TaskPtr i)"
  by (simp add: isReleased_def getTask_def rd_def)

lemma prioOf_cong:
  "taskAry s1 ! i = taskAry s ! i \<Longrightarrow> length (taskAry s1) = length (taskAry s) \<Longrightarrow>
   prioOf s1 (TaskPtr i) = prioOf s (TaskPtr i)"
  by (simp add: prioOf_def getTask_def rd_def)

lemma scanSuspended_abs:
  "scanSuspended cfg idx b s = Some (b1, s1) \<Longrightarrow> listsOk cfg s \<Longrightarrow>
     listsOk cfg s1
     \<and> suspList s1 = take idx (suspList s)
                       @ filter (\<lambda>p. \<not> isReleased cfg s p) (drop idx (suspList s))
     \<and> (\<forall>c < RTOS_NO_PRIO_CLASSES cfg.
          dueList s1 c = dueList s c
             @ filter (\<lambda>p. isReleased cfg s p \<and> prioOf s p = c) (drop idx (suspList s)))
     \<and> pActiveTask s1 = pActiveTask s \<and> pSuspendedTask s1 = pSuspendedTask s
     \<and> time s1 = time s
     \<and> map prioClass (taskAry s1) = map prioClass (taskAry s)
     \<and> map postedEventVec (taskAry s1) = map postedEventVec (taskAry s)
     \<and> (\<forall>i. \<not> (TaskPtr i \<in> set (drop idx (suspList s)) \<and> isReleased cfg s (TaskPtr i))
             \<longrightarrow> taskAry s1 ! i = taskAry s ! i)
     \<and> b1 = (b \<or> (\<exists>p \<in> set (drop idx (suspList s)). isReleased cfg s p))
     \<and> (\<not> b1 \<longrightarrow> s1 = s)
     \<and> (\<forall>p \<in> set (drop idx (suspList s)).
           isReleased cfg s p \<longrightarrow> prioOf s p < RTOS_NO_PRIO_CLASSES cfg)"
proof (induction cfg idx b s arbitrary: b1 s1 rule: scanSuspended.induct)
  case (1 cfg idx b s)
  note ok = \<open>listsOk cfg s\<close>
  note sh = shapeD[OF listsOkD(1)[OF ok]]
  let ?L = "suspList s"
  have lenL: "length ?L = noSuspendedTasks s" using sh by (simp add: suspList_def)
  show ?case
  proof (cases "idx < noSuspendedTasks s")
    case False
    have "scanSuspended cfg idx b s = Some (b, s)"
      using False by (subst scanSuspended.simps) simp
    with 1(3) have "b1 = b" "s1 = s" by simp_all
    with False lenL ok show ?thesis by simp
  next
    case True
    define pT where "pT = pSuspendedTaskAry s ! idx"
    have rdp: "rd (pSuspendedTaskAry s) idx = Some pT" using True sh by (simp add: rd_def pT_def)
    have pTL: "pT = ?L ! idx" using True by (simp add: suspList_def pT_def)
    have dr: "drop idx ?L = pT # drop (Suc idx) ?L"
      using True lenL pTL by (simp add: Cons_nth_drop_Suc)
    have pTin: "pT \<in> set ?L" using pTL True lenL by simp
    from listsOkD(3)[OF ok pTin] obtain j where j: "j < RTOS_NO_TASKS cfg" "pT = TaskPtr j" by auto
    define t where "t = taskAry s ! j"
    have gt: "getTask s pT = Some t" using j sh by (simp add: getTask_def rd_def t_def)
    have rel: "isReleased cfg s pT = releaseTest cfg t" using gt by (simp add: isReleased_def)
    have tk: "take (Suc idx) ?L = take idx ?L @ [pT]"
      using True lenL pTL by (simp add: take_Suc_conv_app_nth)
    show ?thesis
    proof (cases "releaseTest cfg t")
      case False
      with 1(3) True rdp gt have "scanSuspended cfg (idx + 1) b s = Some (b1, s1)"
        by (simp add: scanSuspended_step)
      note IH = 1(2)[OF True rdp gt False this ok]
      have nr: "\<not> isReleased cfg s pT" using rel False by simp
      have g1: "suspList s1 = take idx ?L @ filter (\<lambda>p. \<not> isReleased cfg s p) (drop idx ?L)"
        using IH tk nr by (simp add: dr)
      have g2: "dueList s1 c = dueList s c
             @ filter (\<lambda>p. isReleased cfg s p \<and> prioOf s p = c) (drop idx ?L)"
        if "c < RTOS_NO_PRIO_CLASSES cfg" for c
        using IH that nr by (simp add: dr)
      have g3: "taskAry s1 ! i = taskAry s ! i"
        if "\<not> (TaskPtr i \<in> set (drop idx ?L) \<and> isReleased cfg s (TaskPtr i))" for i
      proof -
        from that have "\<not> (TaskPtr i \<in> set (drop (idx + 1) ?L) \<and> isReleased cfg s (TaskPtr i))"
          by (auto simp: dr)
        with IH show ?thesis by blast
      qed
      have g4: "b1 = (b \<or> (\<exists>p \<in> set (drop idx ?L). isReleased cfg s p))"
        using IH nr by (simp add: dr)
      from IH have r: "listsOk cfg s1" "pActiveTask s1 = pActiveTask s"
        "pSuspendedTask s1 = pSuspendedTask s" "time s1 = time s"
        "map prioClass (taskAry s1) = map prioClass (taskAry s)"
        "map postedEventVec (taskAry s1) = map postedEventVec (taskAry s)"
        "\<not> b1 \<longrightarrow> s1 = s" by blast+
      have g7: "\<forall>p \<in> set (drop idx ?L).
           isReleased cfg s p \<longrightarrow> prioOf s p < RTOS_NO_PRIO_CLASSES cfg"
        using IH nr by (simp add: dr)
      show ?thesis
        using g1 g2 g3 g4 g7 r by (intro conjI allI impI) blast+
    next
      case rt: True
      with 1(3) True rdp gt obtain s2 where
        m: "makeDue cfg idx pT s = Some s2" and sc: "scanSuspended cfg idx True s2 = Some (b1, s1)"
        by (auto simp: scanSuspended_step split: bind_splits)
      note md = makeDue_abs[OF ok True pT_def m]
      note IH = 1(1)[OF True rdp gt rt m sc md(1)]
      have len2: "length (taskAry s2) = length (taskAry s)"
        using md(8) by (metis length_map)
      have t2: "take idx (suspList s2) = take idx ?L" "drop idx (suspList s2) = drop (Suc idx) ?L"
        using md(2) True lenL by simp_all
      have notin: "pT \<notin> set (drop (Suc idx) ?L)"
        using distinct_remove_nth(2)[OF listsOkD(2)[OF ok], of idx] True lenL pTL by simp
      have same: "isReleased cfg s2 p = isReleased cfg s p \<and> prioOf s2 p = prioOf s p"
        if "p \<in> set (drop (Suc idx) ?L)" for p
      proof -
        from that have "p \<in> set ?L" by (rule in_set_dropD)
        from listsOkD(3)[OF ok this] obtain i where i: "p = TaskPtr i" by auto
        with that notin have "TaskPtr i \<noteq> pT" by auto
        from md(10)[OF this] len2 i show ?thesis
          using isReleased_cong[of s2 i s cfg] prioOf_cong[of s2 i s] by simp
      qed
      have f1: "filter (\<lambda>p. \<not> isReleased cfg s2 p) (drop (Suc idx) ?L)
              = filter (\<lambda>p. \<not> isReleased cfg s p) (drop (Suc idx) ?L)"
        using same by (intro filter_cong) auto
      have f2: "filter (\<lambda>p. isReleased cfg s2 p \<and> prioOf s2 p = c) (drop (Suc idx) ?L)
              = filter (\<lambda>p. isReleased cfg s p \<and> prioOf s p = c) (drop (Suc idx) ?L)" for c
        using same by (intro filter_cong) auto
      have f3: "(\<exists>p \<in> set (drop (Suc idx) ?L). isReleased cfg s2 p)
              = (\<exists>p \<in> set (drop (Suc idx) ?L). isReleased cfg s p)"
        using same by auto
      have g1: "suspList s1 = take idx ?L @ filter (\<lambda>p. \<not> isReleased cfg s p) (drop idx ?L)"
        using IH t2 f1 dr rel rt by simp
      have g2: "dueList s1 c = dueList s c
             @ filter (\<lambda>p. isReleased cfg s p \<and> prioOf s p = c) (drop idx ?L)"
        if "c < RTOS_NO_PRIO_CLASSES cfg" for c
        using IH that t2 f2[of c] dr rel rt md(3)[OF that] by simp
      have g3: "taskAry s1 ! i = taskAry s ! i"
        if "\<not> (TaskPtr i \<in> set (drop idx ?L) \<and> isReleased cfg s (TaskPtr i))" for i
      proof -
        from that dr rel rt have ne: "TaskPtr i \<noteq> pT" by auto
        from that dr have "\<not> (TaskPtr i \<in> set (drop (Suc idx) ?L) \<and> isReleased cfg s (TaskPtr i))"
          by auto
        with same[of "TaskPtr i"] t2
        have "\<not> (TaskPtr i \<in> set (drop idx (suspList s2)) \<and> isReleased cfg s2 (TaskPtr i))"
          by auto
        with IH have "taskAry s1 ! i = taskAry s2 ! i" by blast
        with md(10)[OF ne] show ?thesis by simp
      qed
      have g4: "b1" using IH by simp
      have g5: "\<exists>p \<in> set (drop idx ?L). isReleased cfg s p" using dr rel rt by auto
      from IH have r: "listsOk cfg s1" "pActiveTask s1 = pActiveTask s2"
        "pSuspendedTask s1 = pSuspendedTask s2" "time s1 = time s2"
        "map prioClass (taskAry s1) = map prioClass (taskAry s2)"
        "map postedEventVec (taskAry s1) = map postedEventVec (taskAry s2)" by blast+
      have r2: "pActiveTask s1 = pActiveTask s"
        "pSuspendedTask s1 = pSuspendedTask s" "time s1 = time s"
        "map prioClass (taskAry s1) = map prioClass (taskAry s)"
        "map postedEventVec (taskAry s1) = map postedEventVec (taskAry s)"
        using r md(5-9) by simp_all
      have g6: "b1 = (b \<or> (\<exists>p \<in> set (drop idx ?L). isReleased cfg s p))"
        using g4 g5 by simp
      have g7: "\<forall>p \<in> set (drop idx ?L).
           isReleased cfg s p \<longrightarrow> prioOf s p < RTOS_NO_PRIO_CLASSES cfg"
      proof
        fix p assume p: "p \<in> set (drop idx ?L)"
        show "isReleased cfg s p \<longrightarrow> prioOf s p < RTOS_NO_PRIO_CLASSES cfg"
        proof (cases "p = pT")
          case True
          then show ?thesis using md(4) by simp
        next
          case False
          with p dr have pin: "p \<in> set (drop (Suc idx) ?L)" by simp
          from IH have "\<forall>p \<in> set (drop idx (suspList s2)).
             isReleased cfg s2 p \<longrightarrow> prioOf s2 p < RTOS_NO_PRIO_CLASSES cfg" by blast
          with pin t2(2) have "isReleased cfg s2 p \<longrightarrow> prioOf s2 p < RTOS_NO_PRIO_CLASSES cfg"
            by simp
          with same[OF pin] show ?thesis by simp
        qed
      qed
      show ?thesis
        using g1 g2 g3 g4 g6 g7 r(1) r2 by (intro conjI allI impI) blast+
    qed
  qed
qed

lemma scanSuspended_none_released:
  "scanSuspended cfg idx b s = Some (b1, s1) \<Longrightarrow>
   (\<forall>k<idx. \<exists>t. getTask s (pSuspendedTaskAry s ! k) = Some t \<and> \<not> releaseTest cfg t) \<Longrightarrow>
   \<forall>k<noSuspendedTasks s1.
      \<exists>t. getTask s1 (pSuspendedTaskAry s1 ! k) = Some t \<and> \<not> releaseTest cfg t"
proof (induction cfg idx b s arbitrary: b1 s1 rule: scanSuspended.induct)
  case (1 cfg idx b s)
  show ?case
  proof (cases "idx < noSuspendedTasks s")
    case False
    have "scanSuspended cfg idx b s = Some (b, s)"
      using False by (subst scanSuspended.simps) simp
    with 1(3) have "s1 = s" by simp
    with False 1(4) show ?thesis by simp
  next
    case True
    from 1(3) True obtain pT t where
      rdp: "rd (pSuspendedTaskAry s) idx = Some pT" and gt: "getTask s pT = Some t"
      by (subst (asm) scanSuspended.simps) (auto split: bind_splits)
    show ?thesis
    proof (cases "releaseTest cfg t")
      case False
      with 1(3) True rdp gt have sc: "scanSuspended cfg (idx + 1) b s = Some (b1, s1)"
        by (simp add: scanSuspended_step)
      have "\<forall>k<idx + 1. \<exists>t. getTask s (pSuspendedTaskAry s ! k) = Some t \<and> \<not> releaseTest cfg t"
      proof (intro allI impI)
        fix k assume "k < idx + 1"
        then consider "k < idx" | "k = idx" by linarith
        then show "\<exists>t. getTask s (pSuspendedTaskAry s ! k) = Some t \<and> \<not> releaseTest cfg t"
        proof cases
          case 1
          then show ?thesis using \<open>\<forall>k<idx. _\<close> by simp
        next
          case 2
          then show ?thesis using rdp gt False by (auto simp: rd_Some_iff)
        qed
      qed
      from 1(2)[OF True rdp gt False sc this] show ?thesis .
    next
      case rt: True
      with 1(3) True rdp gt obtain s2 where
        m: "makeDue cfg idx pT s = Some s2" and sc: "scanSuspended cfg idx True s2 = Some (b1, s1)"
        by (auto simp: scanSuspended_step split: bind_splits)
      from m obtain j a where
        j: "pT = TaskPtr j" "j < length (taskAry s)"
        and a: "shiftDown (pSuspendedTaskAry s) idx (dec8 (noSuspendedTasks s)) = Some a"
        and len: "length (taskAry s2) = length (taskAry s)"
        and nth: "\<And>i. i \<noteq> j \<Longrightarrow> taskAry s2 ! i = taskAry s ! i"
        and su: "pSuspendedTaskAry s2 = a"
        by (rule makeDue_SomeE) auto
      have idxl: "idx < length (pSuspendedTaskAry s)" using rdp by (simp add: rd_Some_iff)
      have ak: "a ! k = pSuspendedTaskAry s ! k" if "k < idx" for k
        using a that idxl by (auto simp: shiftDown_nth split: if_splits)
      have "\<forall>k<idx. \<exists>t. getTask s2 (pSuspendedTaskAry s2 ! k) = Some t \<and> \<not> releaseTest cfg t"
      proof (intro allI impI)
        fix k assume k: "k < idx"
        with 1(4) obtain t' where t': "getTask s (pSuspendedTaskAry s ! k) = Some t'"
          "\<not> releaseTest cfg t'" by blast
        then obtain i where i: "pSuspendedTaskAry s ! k = TaskPtr i" "i < length (taskAry s)"
          "t' = taskAry s ! i" by (auto simp: getTask_Some_iff)
        have "i \<noteq> j" using i t' j gt rt by (auto simp: getTask_Some_iff)
        with nth[of i] len i t' ak[OF k] su
        show "\<exists>t. getTask s2 (pSuspendedTaskAry s2 ! k) = Some t \<and> \<not> releaseTest cfg t"
          by (simp add: getTask_Some_iff)
      qed
      from 1(1)[OF True rdp gt rt m sc this] show ?thesis .
    qed
  qed
qed

lemma postEvent_idem: "postEvent v (postEvent v t) = postEvent v t"
  by (simp add: postEvent_def or.assoc)

lemma word_post_timer:
  "(p OR ((v AND NOT T) AND m)) AND T = p AND (T :: 16 word)"
  by (auto simp: bit_eq_iff bit_and_iff bit_or_iff bit_not_iff)

lemma word_post_none:
  "v AND m = 0 \<Longrightarrow> p OR ((v AND NOT T) AND m) = (p :: 16 word)"
  by (auto simp: bit_eq_iff bit_and_iff bit_or_iff bit_not_iff)

lemma scanSuspended_posted:
  "scanSuspended cfg idx b s = Some (b1, s1) \<Longrightarrow>
   map postedEventVec (taskAry s1) = map postedEventVec (taskAry s)"
proof (induction cfg idx b s arbitrary: b1 s1 rule: scanSuspended.induct)
  case (1 cfg idx b s)
  show ?case
  proof (cases "idx < noSuspendedTasks s")
    case False
    have "scanSuspended cfg idx b s = Some (b, s)"
      using False by (subst scanSuspended.simps) simp
    with 1(3) show ?thesis by simp
  next
    case True
    from 1(3) True obtain pT t where
      rdp: "rd (pSuspendedTaskAry s) idx = Some pT" and gt: "getTask s pT = Some t"
      by (subst (asm) scanSuspended.simps) (auto split: bind_splits)
    show ?thesis
    proof (cases "releaseTest cfg t")
      case False
      with 1(3) True rdp gt have sc: "scanSuspended cfg (idx + 1) b s = Some (b1, s1)"
        by (simp add: scanSuspended_step)
      from 1(2)[OF True rdp gt False sc] show ?thesis .
    next
      case rt: True
      with 1(3) True rdp gt obtain s2 where
        m: "makeDue cfg idx pT s = Some s2" and sc: "scanSuspended cfg idx True s2 = Some (b1, s1)"
        by (auto simp: scanSuspended_step split: bind_splits)
      from m have "map postedEventVec (taskAry s2) = map postedEventVec (taskAry s)"
        by (rule makeDue_SomeE) (simp add: map_update list_update_same_conv)
      with 1(1)[OF True rdp gt rt m sc] show ?thesis by simp
    qed
  qed
qed

lemma checkForTaskActivation_SomeE:
  assumes "checkForTaskActivation cfg hint s = Some (b, s1)"
  obtains isNew s2 where
    "scanSuspended cfg 0 (RTOS_ROUND_ROBIN_MODE_SUPPORTED cfg \<and> hint) s = Some (isNew, s2)"
    "\<not> isNew \<Longrightarrow> b = False \<and> s1 = s2"
    "isNew \<Longrightarrow> searchDue (noDueTasksAry s2) (RTOS_NO_PRIO_CLASSES cfg) = Some None
        \<and> b = True \<and> s1 = s2
      \<or> (\<exists>c. searchDue (noDueTasksAry s2) (RTOS_NO_PRIO_CLASSES cfg) = Some (Some c)
            \<and> c < length (pDueTaskAryAry s2) \<and> 0 < length (pDueTaskAryAry s2 ! c)
            \<and> s1 = s2\<lparr>pSuspendedTask := pActiveTask s2, pActiveTask := pDueTaskAryAry s2 ! c ! 0\<rparr>
            \<and> b = (pDueTaskAryAry s2 ! c ! 0 \<noteq> pActiveTask s2))"
  using assms
  by (auto simp: checkForTaskActivation_def Let_def rd_Some_iff
           split: bind_splits if_splits option.splits)

lemma checkForTaskActivation_scan_ex:
  "checkForTaskActivation cfg hint s = Some (b, s1) \<Longrightarrow>
   \<exists>isNew s2.
    scanSuspended cfg 0 (RTOS_ROUND_ROBIN_MODE_SUPPORTED cfg \<and> hint) s = Some (isNew, s2)
    \<and> taskAry s1 = taskAry s2 \<and> pSuspendedTaskAry s1 = pSuspendedTaskAry s2
    \<and> noSuspendedTasks s1 = noSuspendedTasks s2 \<and> noDueTasksAry s1 = noDueTasksAry s2
    \<and> pDueTaskAryAry s1 = pDueTaskAryAry s2 \<and> time s1 = time s2"
  by (auto simp: checkForTaskActivation_def Let_def
           split: bind_splits if_splits option.splits)

lemma checkForTaskActivation_scan:
  assumes "checkForTaskActivation cfg hint s = Some (b, s1)"
  obtains isNew s2 where
    "scanSuspended cfg 0 (RTOS_ROUND_ROBIN_MODE_SUPPORTED cfg \<and> hint) s = Some (isNew, s2)"
    "taskAry s1 = taskAry s2" "pSuspendedTaskAry s1 = pSuspendedTaskAry s2"
    "noSuspendedTasks s1 = noSuspendedTasks s2" "noDueTasksAry s1 = noDueTasksAry s2"
    "pDueTaskAryAry s1 = pDueTaskAryAry s2" "time s1 = time s2"
  using checkForTaskActivation_scan_ex[OF assms] by blast

lemma checkForTaskActivation_posted:
  assumes "checkForTaskActivation cfg hint s = Some (b, s1)"
  shows "map postedEventVec (taskAry s1) = map postedEventVec (taskAry s)"
  using assms
  by (rule checkForTaskActivation_scan) (simp add: scanSuspended_posted)

lemma postEvents_fields:
  assumes f: "forSuspended (postEvent (vec AND NOT T)) 0 s = Some s1"
    and i: "i < length (taskAry s)"
  shows "(TaskPtr i \<in> set (suspList s) \<longrightarrow>
              postedEventVec (taskAry s1 ! i) =
                postedEventVec (taskAry s ! i) OR ((vec AND NOT T) AND eventMask (taskAry s ! i)))
         \<and> (TaskPtr i \<in> set (suspList s) \<and> vec AND eventMask (taskAry s ! i) = 0 \<longrightarrow>
              postedEventVec (taskAry s1 ! i) = postedEventVec (taskAry s ! i))
         \<and> (TaskPtr i \<notin> set (suspList s) \<longrightarrow> taskAry s1 ! i = taskAry s ! i)
         \<and> taskAry s1 ! i = (taskAry s ! i)\<lparr>postedEventVec := postedEventVec (taskAry s1 ! i)\<rparr>
         \<and> postedEventVec (taskAry s1 ! i) AND T = postedEventVec (taskAry s ! i) AND T"
proof -
  have e: "taskAry s1 ! i = (if TaskPtr i \<in> set (suspList s)
                            then postEvent (vec AND NOT T) (taskAry s ! i) else taskAry s ! i)"
    using forSuspended_idem[OF f postEvent_idem i] by simp
  show ?thesis
  proof (cases "TaskPtr i \<in> set (suspList s)")
    case True
    with e show ?thesis by (simp add: postEvent_def word_post_timer word_post_none)
  next
    case False
    with e show ?thesis by simp
  qed
qed

section \<open>Posting of events\<close>

text \<open>
  Claim C5.  \<^verbatim>\<open>setEvent\<close> first clears the two timer bits of the event vector and then
  runs once over the suspended tasks.  After this loop every suspended task has got the
  posted events that its mask contains, in addition to those it had; if its mask shares
  no bit with the vector, nothing changes for it.  The loop changes nothing but the
  posted events of these tasks: all other fields of all tasks and all other kernel data
  stay as they are.  Neither the loop nor \<^verbatim>\<open>setEvent\<close> as a whole changes a timer bit in
  the posted events of any task.
\<close>

theorem setEvent_posts_masked_events:
  assumes "setEvent cfg vec s = Some (b, s2)"
  shows "\<exists>s1. forSuspended (postEvent (vec AND NOT (RTOS_EVT_ABSOLUTE_TIMER cfg
                                                    OR RTOS_EVT_DELAY_TIMER cfg))) 0 s = Some s1
      \<and> checkForTaskActivation cfg False s1 = Some (b, s2)
      \<and> s1 = s\<lparr>taskAry := taskAry s1\<rparr> \<and> length (taskAry s1) = length (taskAry s)
      \<and> (\<forall>i < length (taskAry s).
           (TaskPtr i \<in> set (suspList s) \<longrightarrow>
              postedEventVec (taskAry s1 ! i) =
                postedEventVec (taskAry s ! i)
                OR ((vec AND NOT (RTOS_EVT_ABSOLUTE_TIMER cfg OR RTOS_EVT_DELAY_TIMER cfg))
                    AND eventMask (taskAry s ! i)))
         \<and> (TaskPtr i \<in> set (suspList s) \<and> vec AND eventMask (taskAry s ! i) = 0 \<longrightarrow>
              postedEventVec (taskAry s1 ! i) = postedEventVec (taskAry s ! i))
         \<and> (TaskPtr i \<notin> set (suspList s) \<longrightarrow> taskAry s1 ! i = taskAry s ! i)
         \<and> taskAry s1 ! i = (taskAry s ! i)\<lparr>postedEventVec := postedEventVec (taskAry s1 ! i)\<rparr>
         \<and> postedEventVec (taskAry s1 ! i)
               AND (RTOS_EVT_ABSOLUTE_TIMER cfg OR RTOS_EVT_DELAY_TIMER cfg)
             = postedEventVec (taskAry s ! i)
               AND (RTOS_EVT_ABSOLUTE_TIMER cfg OR RTOS_EVT_DELAY_TIMER cfg)
         \<and> postedEventVec (taskAry s2 ! i)
               AND (RTOS_EVT_ABSOLUTE_TIMER cfg OR RTOS_EVT_DELAY_TIMER cfg)
             = postedEventVec (taskAry s ! i)
               AND (RTOS_EVT_ABSOLUTE_TIMER cfg OR RTOS_EVT_DELAY_TIMER cfg))"
proof -
  let ?T = "RTOS_EVT_ABSOLUTE_TIMER cfg OR RTOS_EVT_DELAY_TIMER cfg"
  let ?v = "vec AND NOT ?T"
  from assms obtain s1 where
    f: "forSuspended (postEvent ?v) 0 s = Some s1"
    and c: "checkForTaskActivation cfg False s1 = Some (b, s2)"
    by (auto simp: setEvent_def Let_def split: bind_splits)
  note fr = forSuspended_frame[OF f]
  have p2: "postedEventVec (taskAry s2 ! i) = postedEventVec (taskAry s1 ! i)"
    if "i < length (taskAry s)" for i
  proof -
    from checkForTaskActivation_posted[OF c]
    have "map postedEventVec (taskAry s2) ! i = map postedEventVec (taskAry s1) ! i" by simp
    moreover have "length (taskAry s2) = length (taskAry s1)"
      using checkForTaskActivation_posted[OF c] by (metis length_map)
    ultimately show ?thesis using that fr by simp
  qed
  have main: "(TaskPtr i \<in> set (suspList s) \<longrightarrow>
              postedEventVec (taskAry s1 ! i) =
                postedEventVec (taskAry s ! i) OR (?v AND eventMask (taskAry s ! i)))
         \<and> (TaskPtr i \<in> set (suspList s) \<and> vec AND eventMask (taskAry s ! i) = 0 \<longrightarrow>
              postedEventVec (taskAry s1 ! i) = postedEventVec (taskAry s ! i))
         \<and> (TaskPtr i \<notin> set (suspList s) \<longrightarrow> taskAry s1 ! i = taskAry s ! i)
         \<and> taskAry s1 ! i = (taskAry s ! i)\<lparr>postedEventVec := postedEventVec (taskAry s1 ! i)\<rparr>
         \<and> postedEventVec (taskAry s1 ! i) AND ?T = postedEventVec (taskAry s ! i) AND ?T
         \<and> postedEventVec (taskAry s2 ! i) AND ?T = postedEventVec (taskAry s ! i) AND ?T"
    if i: "i < length (taskAry s)" for i
    using postEvents_fields[OF f i] p2[OF i] by (simp only:) blast
  from f c fr main show ?thesis by blast
qed

theorem setEvent_posts_masked_events_witness:
  "setEvent cfg1 0x4008 stateY = Some (True, stateY1)
   \<and> TaskPtr 0 \<in> set (suspList stateY)
   \<and> postedEventVec (taskAry stateY1 ! 0)
        AND (RTOS_EVT_ABSOLUTE_TIMER cfg1 OR RTOS_EVT_DELAY_TIMER cfg1) = 0
   \<and> (\<exists>s1. forSuspended (postEvent 8) 0 stateY = Some s1
           \<and> postedEventVec (taskAry s1 ! 0) = 8)"
proof -
  have h: "setEvent cfg1 0x4008 stateY = Some (True, stateY1)"
    by code_simp
  have m: "TaskPtr 0 \<in> set (suspList stateY)" "0 < length (taskAry stateY)"
    "postedEventVec (taskAry stateY ! 0) = 0" "eventMask (taskAry stateY ! 0) = 0x8008"
    "(0x4008 :: 16 word) AND NOT (RTOS_EVT_ABSOLUTE_TIMER cfg1 OR RTOS_EVT_DELAY_TIMER cfg1) = 8"
    by (simp_all add: stateY_def suspList_def taskX_def cfg1_def)
  from setEvent_posts_masked_events[OF h] m h show ?thesis
    by auto
qed

section \<open>Result of the scan\<close>

text \<open>
  Claim C8.  When \<^verbatim>\<open>checkForTaskActivation\<close> returns, every task left in the array of
  suspended tasks fails the release test.  If the lists are consistent before the call,
  the suspended tasks afterwards are exactly those that failed the test before, in their
  old order, and every task that passed it has been appended to the list of due tasks
  of its priority class.
\<close>

theorem scan_leaves_no_released_task:
  assumes "checkForTaskActivation cfg isNewActiveTask s = Some (b, s1)"
  shows "(\<forall>k < noSuspendedTasks s1.
            \<exists>t. getTask s1 (pSuspendedTaskAry s1 ! k) = Some t \<and> \<not> releaseTest cfg t)
       \<and> (listsOk cfg s \<longrightarrow>
             suspList s1 = filter (\<lambda>p. \<not> isReleased cfg s p) (suspList s)
           \<and> (\<forall>c < RTOS_NO_PRIO_CLASSES cfg.
                 dueList s1 c = dueList s c
                   @ filter (\<lambda>p. isReleased cfg s p \<and> prioOf s p = c) (suspList s))
           \<and> (\<forall>p \<in> set (suspList s1). \<not> isReleased cfg s1 p))"
proof -
  from assms obtain isNew s2 where
    sc: "scanSuspended cfg 0 (RTOS_ROUND_ROBIN_MODE_SUPPORTED cfg \<and> isNewActiveTask) s
           = Some (isNew, s2)"
    and eq: "taskAry s1 = taskAry s2" "pSuspendedTaskAry s1 = pSuspendedTaskAry s2"
      "noSuspendedTasks s1 = noSuspendedTasks s2" "noDueTasksAry s1 = noDueTasksAry s2"
      "pDueTaskAryAry s1 = pDueTaskAryAry s2"
    by (rule checkForTaskActivation_scan)
  have g: "getTask s1 = getTask s2"
    using eq by (auto simp: getTask_def fun_eq_iff split: taskptr.splits)
  have l: "suspList s1 = suspList s2" "dueList s1 = dueList s2"
    using eq by (auto simp: suspList_def dueList_def fun_eq_iff)
  have one: "\<forall>k < noSuspendedTasks s1.
            \<exists>t. getTask s1 (pSuspendedTaskAry s1 ! k) = Some t \<and> \<not> releaseTest cfg t"
    using scanSuspended_none_released[OF sc] eq g by simp
  have two: "suspList s1 = filter (\<lambda>p. \<not> isReleased cfg s p) (suspList s)
           \<and> (\<forall>c < RTOS_NO_PRIO_CLASSES cfg.
                 dueList s1 c = dueList s c
                   @ filter (\<lambda>p. isReleased cfg s p \<and> prioOf s p = c) (suspList s))
           \<and> (\<forall>p \<in> set (suspList s1). \<not> isReleased cfg s1 p)"
    if ok: "listsOk cfg s"
  proof -
    note ab = scanSuspended_abs[OF sc ok]
    from ab have "listsOk cfg s2" by blast
    note sh2 = shapeD[OF listsOkD(1)[OF this]]
    have n: "length (suspList s1) = noSuspendedTasks s1"
      using sh2(3,8) eq by (simp add: suspList_def)
    have "\<not> isReleased cfg s1 p" if "p \<in> set (suspList s1)" for p
    proof -
      from that obtain k where k: "k < length (suspList s1)" "p = suspList s1 ! k"
        by (auto simp: in_set_conv_nth)
      with n have "p = pSuspendedTaskAry s1 ! k" "k < noSuspendedTasks s1"
        by (simp_all add: suspList_def)
      with one show ?thesis by (auto simp: isReleased_def)
    qed
    with ab l show ?thesis by simp
  qed
  from one two show ?thesis by blast
qed

theorem scan_leaves_no_released_task_witness:
  "checkForTaskActivation cfg1 False stateX = Some (True, stateX1)
   \<and> listsOk cfg1 stateX
   \<and> suspList stateX = [TaskPtr 0] \<and> isReleased cfg1 stateX (TaskPtr 0)
   \<and> suspList stateX1 = [] \<and> dueList stateX1 0 = [TaskPtr 0]"
proof -
  have h: "checkForTaskActivation cfg1 False stateX = Some (True, stateX1)"
    by code_simp
  have ok: "listsOk cfg1 stateX"
    by (simp add: listsOk_def shape_def validConfig_def cfg1_def stateX_def suspList_def
                  dueList_def zeroTask_def)
  have r: "suspList stateX = [TaskPtr 0]" "isReleased cfg1 stateX (TaskPtr 0)"
     "prioOf stateX (TaskPtr 0) = 0" "0 < RTOS_NO_PRIO_CLASSES cfg1" "dueList stateX 0 = []"
    by (simp_all add: stateX_def suspList_def dueList_def isReleased_def prioOf_def getTask_def rd_def
          releaseTest_def TIMER_EVT_MASK_def cfg1_def taskX_def)
  from scan_leaves_no_released_task[OF h] ok r h show ?thesis
    by simp
qed

section \<open>The search for the highest non-empty class; facts on the consistency predicates\<close>

lemma searchDue_None_iff:
  "searchDue nd k = Some None \<longleftrightarrow> k \<le> length nd \<and> (\<forall>c<k. nd ! c = 0)"
proof (induction k)
  case 0
  show ?case by simp
next
  case (Suc k)
  show ?case
  proof (cases "k < length nd")
    case False
    then show ?thesis by (simp add: rd_def)
  next
    case True
    then show ?thesis using Suc by (auto simp: rd_def less_Suc_eq)
  qed
qed

lemma searchDue_Some_iff:
  "searchDue nd k = Some (Some c) \<longleftrightarrow>
     k \<le> length nd \<and> c < k \<and> 0 < nd ! c \<and> (\<forall>c'. c < c' \<and> c' < k \<longrightarrow> nd ! c' = 0)"
proof (induction k)
  case 0
  show ?case by simp
next
  case (Suc k)
  show ?case
  proof (cases "k < length nd")
    case False
    then show ?thesis by (simp add: rd_def)
  next
    case True
    show ?thesis
    proof (cases "0 < nd ! k")
      case n: True
      have "searchDue nd (Suc k) = Some (Some k)" using True n by (simp add: rd_def)
      moreover have "(Suc k \<le> length nd \<and> c < Suc k \<and> 0 < nd ! c
            \<and> (\<forall>c'. c < c' \<and> c' < Suc k \<longrightarrow> nd ! c' = 0)) \<longleftrightarrow> c = k"
        using True n by (auto simp: less_Suc_eq)
      ultimately show ?thesis by auto
    next
      case z: False
      have "searchDue nd (Suc k) = searchDue nd k" using True z by (simp add: rd_def)
      moreover have "(Suc k \<le> length nd \<and> c < Suc k \<and> 0 < nd ! c
            \<and> (\<forall>c'. c < c' \<and> c' < Suc k \<longrightarrow> nd ! c' = 0))
         \<longleftrightarrow> (k \<le> length nd \<and> c < k \<and> 0 < nd ! c \<and> (\<forall>c'. c < c' \<and> c' < k \<longrightarrow> nd ! c' = 0))"
        using True z by (auto simp: less_Suc_eq)
      ultimately show ?thesis using Suc by simp
    qed
  qed
qed

lemma searchDue_total:
  "k \<le> length nd \<Longrightarrow> \<exists>r. searchDue nd k = Some r"
  by (induction k) (auto simp: rd_def)

lemma dueList_length:
  "shape cfg s \<Longrightarrow> c < RTOS_NO_PRIO_CLASSES cfg \<Longrightarrow> length (dueList s c) = noDueTasksAry s ! c"
  by (simp add: shape_def dueList_def)

lemma suspList_length:
  "shape cfg s \<Longrightarrow> length (suspList s) = noSuspendedTasks s"
  by (simp add: shape_def suspList_def)

lemma listsOk_taskAry:
  assumes "listsOk cfg s" "length a = length (taskAry s)"
    "map prioClass a = map prioClass (taskAry s)"
    "RTOS_ROUND_ROBIN_MODE_SUPPORTED cfg \<Longrightarrow> cntRoundRobin (a ! RTOS_NO_TASKS cfg) = 0"
  shows "listsOk cfg (s\<lparr>taskAry := a\<rparr>)"
proof -
  have p: "prioClass (a ! i) = prioClass (taskAry s ! i)" if "i < length a" for i
    using assms(2,3) that by (metis length_map nth_map)
  have l: "suspList (s\<lparr>taskAry := a\<rparr>) = suspList s" "dueList (s\<lparr>taskAry := a\<rparr>) = dueList s"
    by (simp_all add: suspList_def dueList_def fun_eq_iff)
  have sh: "shape cfg (s\<lparr>taskAry := a\<rparr>)"
    using listsOkD(1)[OF assms(1)] assms(2) by (simp add: shape_def)
  show ?thesis
    unfolding listsOk_def l
  proof (intro conjI allI impI ballI)
    show "shape cfg (s\<lparr>taskAry := a\<rparr>)" by (rule sh)
    show "distinct (suspList s)" by (rule listsOkD(2)[OF assms(1)])
    show "\<exists>i<RTOS_NO_TASKS cfg. p = TaskPtr i" if "p \<in> set (suspList s)" for p
      using listsOkD(3)[OF assms(1) that] .
    show "distinct (dueList s c)" if "c < RTOS_NO_PRIO_CLASSES cfg" for c
      using listsOkD(4)[OF assms(1) that] .
    show "p \<notin> set (suspList s)" if "c < RTOS_NO_PRIO_CLASSES cfg" "p \<in> set (dueList s c)" for c p
      using listsOkD(5)[OF assms(1) that] .
    show "\<exists>i<RTOS_NO_TASKS cfg. p = TaskPtr i \<and> prioClass (taskAry (s\<lparr>taskAry := a\<rparr>) ! i) = c"
      if "c < RTOS_NO_PRIO_CLASSES cfg" "p \<in> set (dueList s c)" for c p
    proof -
      from listsOkD(6)[OF assms(1) that] obtain i where
        i: "i < RTOS_NO_TASKS cfg" "p = TaskPtr i" "prioClass (taskAry s ! i) = c" by auto
      with p[of i] assms(2) shapeD(2)[OF listsOkD(1)[OF assms(1)]] show ?thesis by auto
    qed
    show "cntRoundRobin (taskAry (s\<lparr>taskAry := a\<rparr>) ! RTOS_NO_TASKS cfg) = 0"
      if "RTOS_ROUND_ROBIN_MODE_SUPPORTED cfg"
      using assms(4)[OF that] by simp
  qed
qed

lemma listsOk_upd [simp]:
  "listsOk cfg (s\<lparr>pActiveTask := p\<rparr>) = listsOk cfg s"
  "listsOk cfg (s\<lparr>pSuspendedTask := p\<rparr>) = listsOk cfg s"
  "listsOk cfg (s\<lparr>time := tm\<rparr>) = listsOk cfg s"
  by (simp_all add: listsOk_def shape_def suspList_def dueList_def)

lemma activeOk_upd [simp]:
  "activeOk cfg (s\<lparr>taskAry := a\<rparr>) = activeOk cfg s"
  "activeOk cfg (s\<lparr>pSuspendedTask := p\<rparr>) = activeOk cfg s"
  "activeOk cfg (s\<lparr>time := tm\<rparr>) = activeOk cfg s"
  by (simp_all add: activeOk_def split: option.splits)

lemma activeOk_cases:
  assumes "shape cfg s" "activeOk cfg s"
  obtains (idle) "pActiveTask s = pIdleTask cfg" "\<forall>c < RTOS_NO_PRIO_CLASSES cfg. noDueTasksAry s ! c = 0"
    "searchDue (noDueTasksAry s) (RTOS_NO_PRIO_CLASSES cfg) = Some None"
  | (task) c where "c < RTOS_NO_PRIO_CLASSES cfg" "0 < noDueTasksAry s ! c"
     "\<forall>c'. c < c' \<and> c' < RTOS_NO_PRIO_CLASSES cfg \<longrightarrow> noDueTasksAry s ! c' = 0"
     "pActiveTask s = pDueTaskAryAry s ! c ! 0" "pActiveTask s = dueList s c ! 0"
     "searchDue (noDueTasksAry s) (RTOS_NO_PRIO_CLASSES cfg) = Some (Some c)"
proof (cases "searchDue (noDueTasksAry s) (RTOS_NO_PRIO_CLASSES cfg)")
  case None
  with assms(2) show ?thesis by (simp add: activeOk_def)
next
  case (Some r)
  show ?thesis
  proof (cases r)
    case None
    with Some have sd: "searchDue (noDueTasksAry s) (RTOS_NO_PRIO_CLASSES cfg) = Some None"
      by simp
    then have "\<forall>c < RTOS_NO_PRIO_CLASSES cfg. noDueTasksAry s ! c = 0"
      by (simp add: searchDue_None_iff)
    moreover have "pActiveTask s = pIdleTask cfg" using sd assms(2) by (simp add: activeOk_def)
    ultimately show ?thesis using idle sd by blast
  next
    case (Some c)
    with \<open>searchDue _ _ = Some r\<close> have sd: "searchDue (noDueTasksAry s) (RTOS_NO_PRIO_CLASSES cfg) = Some (Some c)"
      by simp
    then have c: "c < RTOS_NO_PRIO_CLASSES cfg" "0 < noDueTasksAry s ! c"
     "\<forall>c'. c < c' \<and> c' < RTOS_NO_PRIO_CLASSES cfg \<longrightarrow> noDueTasksAry s ! c' = 0"
      by (simp_all add: searchDue_Some_iff)
    have a: "pActiveTask s = pDueTaskAryAry s ! c ! 0" using sd assms(2) by (simp add: activeOk_def)
    with c have "pActiveTask s = dueList s c ! 0" by (simp add: dueList_def)
    with task c a sd show ?thesis by blast
  qed
qed

section \<open>The choice of the active task keeps the data consistent\<close>

lemma checkForTaskActivation_cases:
  "checkForTaskActivation cfg hint s = Some (b, s1) \<Longrightarrow>
   \<exists>isNew s2.
     scanSuspended cfg 0 (RTOS_ROUND_ROBIN_MODE_SUPPORTED cfg \<and> hint) s = Some (isNew, s2)
     \<and> ((\<not> isNew \<and> \<not> b \<and> s1 = s2)
        \<or> (isNew \<and> searchDue (noDueTasksAry s2) (RTOS_NO_PRIO_CLASSES cfg) = Some None
             \<and> b \<and> s1 = s2)
        \<or> (\<exists>c. isNew \<and> searchDue (noDueTasksAry s2) (RTOS_NO_PRIO_CLASSES cfg) = Some (Some c)
             \<and> s1 = s2\<lparr>pSuspendedTask := pActiveTask s2,
                        pActiveTask := pDueTaskAryAry s2 ! c ! 0\<rparr>
             \<and> b = (pDueTaskAryAry s2 ! c ! 0 \<noteq> pActiveTask s2)))"
  by (auto simp: checkForTaskActivation_def Let_def rd_Some_iff
           split: bind_splits if_splits option.splits)

lemma checkForTaskActivation_inv:
  assumes ok: "listsOk cfg s"
    and c: "checkForTaskActivation cfg hint s = Some (b, s1)"
    and h1: "RTOS_ROUND_ROBIN_MODE_SUPPORTED cfg \<and> hint
              \<Longrightarrow> \<exists>c < RTOS_NO_PRIO_CLASSES cfg. 0 < noDueTasksAry s ! c"
    and h2: "\<not> (RTOS_ROUND_ROBIN_MODE_SUPPORTED cfg \<and> hint) \<Longrightarrow> activeOk cfg s"
  shows "listsOk cfg s1" and "activeOk cfg s1" and "b = (pActiveTask s1 \<noteq> pActiveTask s)"
    and "suspList s1 = filter (\<lambda>p. \<not> isReleased cfg s p) (suspList s)"
    and "\<And>c. c < RTOS_NO_PRIO_CLASSES cfg \<Longrightarrow>
           dueList s1 c = dueList s c
               @ filter (\<lambda>p. isReleased cfg s p \<and> prioOf s p = c) (suspList s)"
    and "map prioClass (taskAry s1) = map prioClass (taskAry s)"
    and "\<And>i. \<not> (TaskPtr i \<in> set (suspList s) \<and> isReleased cfg s (TaskPtr i))
           \<Longrightarrow> taskAry s1 ! i = taskAry s ! i"
    and "time s1 = time s"
proof -
  let ?h = "RTOS_ROUND_ROBIN_MODE_SUPPORTED cfg \<and> hint"
  from checkForTaskActivation_cases[OF c] obtain isNew s2 where
    sc: "scanSuspended cfg 0 ?h s = Some (isNew, s2)"
    and d: "(\<not> isNew \<and> \<not> b \<and> s1 = s2)
        \<or> (isNew \<and> searchDue (noDueTasksAry s2) (RTOS_NO_PRIO_CLASSES cfg) = Some None
             \<and> b \<and> s1 = s2)
        \<or> (\<exists>c. isNew \<and> searchDue (noDueTasksAry s2) (RTOS_NO_PRIO_CLASSES cfg) = Some (Some c)
             \<and> s1 = s2\<lparr>pSuspendedTask := pActiveTask s2,
                        pActiveTask := pDueTaskAryAry s2 ! c ! 0\<rparr>
             \<and> b = (pDueTaskAryAry s2 ! c ! 0 \<noteq> pActiveTask s2))"
    by blast
  from scanSuspended_abs[OF sc ok] have
    ok2: "listsOk cfg s2"
    and su: "suspList s2 = filter (\<lambda>p. \<not> isReleased cfg s p) (suspList s)"
    and du: "\<And>c. c < RTOS_NO_PRIO_CLASSES cfg \<Longrightarrow>
           dueList s2 c = dueList s c
               @ filter (\<lambda>p. isReleased cfg s p \<and> prioOf s p = c) (suspList s)"
    and ac: "pActiveTask s2 = pActiveTask s" and tm: "time s2 = time s"
    and mp: "map prioClass (taskAry s2) = map prioClass (taskAry s)"
    and nt: "\<And>i. \<not> (TaskPtr i \<in> set (suspList s) \<and> isReleased cfg s (TaskPtr i))
           \<Longrightarrow> taskAry s2 ! i = taskAry s ! i"
    and isNew: "isNew = (?h \<or> (\<exists>p \<in> set (suspList s). isReleased cfg s p))"
    and same: "\<not> isNew \<longrightarrow> s2 = s"
    and pr: "\<And>p. p \<in> set (suspList s) \<Longrightarrow> isReleased cfg s p
                \<Longrightarrow> prioOf s p < RTOS_NO_PRIO_CLASSES cfg"
    by simp_all
  note sh = listsOkD(1)[OF ok] and sh2 = listsOkD(1)[OF ok2]
  have nonempty: "\<exists>c < RTOS_NO_PRIO_CLASSES cfg. 0 < noDueTasksAry s2 ! c" if isNew
  proof (cases ?h)
    case True
    from h1[OF this] obtain c where c: "c < RTOS_NO_PRIO_CLASSES cfg" "0 < noDueTasksAry s ! c"
      by blast
    then have "0 < length (dueList s c)" using dueList_length[OF sh] by simp
    then have "0 < length (dueList s2 c)" using du[OF c(1)] by simp
    then show ?thesis using c(1) dueList_length[OF sh2 c(1)] by auto
  next
    case False
    with isNew that obtain p where p: "p \<in> set (suspList s)" "isReleased cfg s p" by blast
    let ?c = "prioOf s p"
    have c: "?c < RTOS_NO_PRIO_CLASSES cfg" using pr[OF p] .
    have "p \<in> set (dueList s2 ?c)" using du[OF c] p by simp
    then have "0 < length (dueList s2 ?c)" by (cases "dueList s2 ?c") auto
    then show ?thesis using c dueList_length[OF sh2 c] by auto
  qed
  have not_none: "searchDue (noDueTasksAry s2) (RTOS_NO_PRIO_CLASSES cfg) \<noteq> Some None" if isNew
    using nonempty[OF that] by (auto simp: searchDue_None_iff)
  from d not_none consider
    (unchanged) "\<not> isNew" "\<not> b" "s1 = s2"
    | (chosen) c where "isNew"
        "searchDue (noDueTasksAry s2) (RTOS_NO_PRIO_CLASSES cfg) = Some (Some c)"
        "s1 = s2\<lparr>pSuspendedTask := pActiveTask s2, pActiveTask := pDueTaskAryAry s2 ! c ! 0\<rparr>"
        "b = (pDueTaskAryAry s2 ! c ! 0 \<noteq> pActiveTask s2)"
    by blast
  then have r: "listsOk cfg s1 \<and> activeOk cfg s1 \<and> b = (pActiveTask s1 \<noteq> pActiveTask s)
     \<and> suspList s1 = suspList s2 \<and> dueList s1 = dueList s2 \<and> taskAry s1 = taskAry s2
     \<and> time s1 = time s2"
  proof cases
    case unchanged
    with same isNew h2 have "s1 = s" "activeOk cfg s" by auto
    with unchanged ok show ?thesis by simp
  next
    case (chosen c)
    have "activeOk cfg s1" using chosen(2,3) by (simp add: activeOk_def)
    moreover have "suspList s1 = suspList s2 \<and> dueList s1 = dueList s2"
      using chosen(3) by (simp add: suspList_def dueList_def fun_eq_iff)
    ultimately show ?thesis using chosen ok2 ac by simp
  qed
  from r show "listsOk cfg s1" "activeOk cfg s1" "b = (pActiveTask s1 \<noteq> pActiveTask s)"
    by blast+
  from r su show "suspList s1 = filter (\<lambda>p. \<not> isReleased cfg s p) (suspList s)" by simp
  from r du show "\<And>c. c < RTOS_NO_PRIO_CLASSES cfg \<Longrightarrow>
           dueList s1 c = dueList s c
               @ filter (\<lambda>p. isReleased cfg s p \<and> prioOf s p = c) (suspList s)" by simp
  from r mp show "map prioClass (taskAry s1) = map prioClass (taskAry s)" by simp
  from r nt show "\<And>i. \<not> (TaskPtr i \<in> set (suspList s) \<and> isReleased cfg s (TaskPtr i))
           \<Longrightarrow> taskAry s1 ! i = taskAry s ! i" by simp
  from r tm show "time s1 = time s" by simp
qed

section \<open>Round robin\<close>

lemma listsOkI:
  assumes "shape cfg s" "distinct (suspList s)"
    "\<And>p. p \<in> set (suspList s) \<Longrightarrow> \<exists>i < RTOS_NO_TASKS cfg. p = TaskPtr i"
    "\<And>c. c < RTOS_NO_PRIO_CLASSES cfg \<Longrightarrow> distinct (dueList s c)"
    "\<And>c p. c < RTOS_NO_PRIO_CLASSES cfg \<Longrightarrow> p \<in> set (dueList s c) \<Longrightarrow> p \<notin> set (suspList s)"
    "\<And>c p. c < RTOS_NO_PRIO_CLASSES cfg \<Longrightarrow> p \<in> set (dueList s c) \<Longrightarrow>
       \<exists>i < RTOS_NO_TASKS cfg. p = TaskPtr i \<and> prioClass (taskAry s ! i) = c"
    "RTOS_ROUND_ROBIN_MODE_SUPPORTED cfg \<Longrightarrow> cntRoundRobin (taskAry s ! RTOS_NO_TASKS cfg) = 0"
  shows "listsOk cfg s"
  using assms unfolding listsOk_def by blast

lemma forSuspended_unchanged:
  "forSuspended body idx s = Some s1 \<Longrightarrow> TaskPtr i \<notin> set (drop idx (suspList s)) \<Longrightarrow>
   taskAry s1 ! i = taskAry s ! i"
proof (induction body idx s rule: forSuspended.induct)
  case (1 body idx s)
  show ?case
  proof (cases "idx < noSuspendedTasks s")
    case False
    with 1(2) show ?thesis by (simp add: forSuspended_step)
  next
    case True
    with 1(2) obtain pT t s2 where
      a: "rd (pSuspendedTaskAry s) idx = Some pT" "getTask s pT = Some t"
         "putTask s pT (body t) = Some s2" "forSuspended body (idx + 1) s2 = Some s1"
      by (subst (asm) forSuspended_step) (auto split: bind_splits)
    from a obtain j where j: "pT = TaskPtr j" "j < length (taskAry s)"
      "s2 = s\<lparr>taskAry := (taskAry s)[j := body t]\<rparr>"
      by (auto simp: putTask_Some_iff)
    from a(1) True have d: "drop idx (suspList s) = pT # drop (idx + 1) (suspList s)"
      by (simp add: suspList_def rd_Some_iff drop_take_nth)
    have s2: "suspList s2 = suspList s" using j by (simp add: suspList_def)
    from 1(3) d j have ne: "i \<noteq> j" "TaskPtr i \<notin> set (drop (idx + 1) (suspList s2))"
      using s2 by auto
    from 1(1)[OF True a ne(2)] j ne(1) show ?thesis by simp
  qed
qed

lemma word_gt_0_ne: "(0 < (x :: 'a::len word)) = (x \<noteq> 0)"
  by (simp add: word_neq_0_conv)

lemma roundRobin_cases:
  assumes "roundRobin s = Some (b, s1)"
  obtains j where "pActiveTask s = TaskPtr j" "j < length (taskAry s)"
    "(cntRoundRobin (taskAry s ! j) = 0 \<and> \<not> b \<and> s1 = s)
     \<or> (cntRoundRobin (taskAry s ! j) \<noteq> 0 \<and> cntRoundRobin (taskAry s ! j) \<noteq> 1 \<and> \<not> b
          \<and> s1 = s\<lparr>taskAry := (taskAry s)[j := (taskAry s ! j)
                       \<lparr>cntRoundRobin := cntRoundRobin (taskAry s ! j) - 1\<rparr>]\<rparr>)
     \<or> (cntRoundRobin (taskAry s ! j) = 1
          \<and> prioClass (taskAry s ! j) < length (noDueTasksAry s)
          \<and> noDueTasksAry s ! prioClass (taskAry s ! j) \<le> 1 \<and> \<not> b
          \<and> s1 = s\<lparr>taskAry := (taskAry s)[j := (taskAry s ! j)
                       \<lparr>cntRoundRobin := timeRoundRobin (taskAry s ! j)\<rparr>]\<rparr>)
     \<or> (cntRoundRobin (taskAry s ! j) = 1
          \<and> prioClass (taskAry s ! j) < length (noDueTasksAry s)
          \<and> prioClass (taskAry s ! j) < length (pDueTaskAryAry s)
          \<and> 1 < noDueTasksAry s ! prioClass (taskAry s ! j) \<and> b
          \<and> (\<exists>row1. shiftDown (pDueTaskAryAry s ! prioClass (taskAry s ! j)) 0
                         (dec8 (noDueTasksAry s ! prioClass (taskAry s ! j))) = Some row1
                \<and> dec8 (noDueTasksAry s ! prioClass (taskAry s ! j)) < length row1
                \<and> s1 = s\<lparr>taskAry := (taskAry s)[j := (taskAry s ! j)
                              \<lparr>cntRoundRobin := timeRoundRobin (taskAry s ! j)\<rparr>],
                          pDueTaskAryAry := (pDueTaskAryAry s)[prioClass (taskAry s ! j) :=
                              row1[dec8 (noDueTasksAry s ! prioClass (taskAry s ! j))
                                     := TaskPtr j]]\<rparr>))"
proof -
  from assms obtain a where a: "getTask s (pActiveTask s) = Some a"
    by (auto simp: roundRobin_def split: bind_splits)
  then obtain j where j: "pActiveTask s = TaskPtr j" "j < length (taskAry s)" "a = taskAry s ! j"
    by (auto simp: getTask_Some_iff)
  have m1: "(x :: 'a word) - 1 = 0 \<longleftrightarrow> x = 1" for x by auto
  from assms a j have
    "(cntRoundRobin (taskAry s ! j) = 0 \<and> \<not> b \<and> s1 = s)
     \<or> (cntRoundRobin (taskAry s ! j) \<noteq> 0 \<and> cntRoundRobin (taskAry s ! j) \<noteq> 1 \<and> \<not> b
          \<and> s1 = s\<lparr>taskAry := (taskAry s)[j := (taskAry s ! j)
                       \<lparr>cntRoundRobin := cntRoundRobin (taskAry s ! j) - 1\<rparr>]\<rparr>)
     \<or> (cntRoundRobin (taskAry s ! j) = 1
          \<and> prioClass (taskAry s ! j) < length (noDueTasksAry s)
          \<and> noDueTasksAry s ! prioClass (taskAry s ! j) \<le> 1 \<and> \<not> b
          \<and> s1 = s\<lparr>taskAry := (taskAry s)[j := (taskAry s ! j)
                       \<lparr>cntRoundRobin := timeRoundRobin (taskAry s ! j)\<rparr>]\<rparr>)
     \<or> (cntRoundRobin (taskAry s ! j) = 1
          \<and> prioClass (taskAry s ! j) < length (noDueTasksAry s)
          \<and> prioClass (taskAry s ! j) < length (pDueTaskAryAry s)
          \<and> 1 < noDueTasksAry s ! prioClass (taskAry s ! j) \<and> b
          \<and> (\<exists>row1. shiftDown (pDueTaskAryAry s ! prioClass (taskAry s ! j)) 0
                         (dec8 (noDueTasksAry s ! prioClass (taskAry s ! j))) = Some row1
                \<and> dec8 (noDueTasksAry s ! prioClass (taskAry s ! j)) < length row1
                \<and> s1 = s\<lparr>taskAry := (taskAry s)[j := (taskAry s ! j)
                              \<lparr>cntRoundRobin := timeRoundRobin (taskAry s ! j)\<rparr>],
                          pDueTaskAryAry := (pDueTaskAryAry s)[prioClass (taskAry s ! j) :=
                              row1[dec8 (noDueTasksAry s ! prioClass (taskAry s ! j))
                                     := TaskPtr j]]\<rparr>))"
    by (auto simp: roundRobin_def Let_def word_gt_0_ne m1 putTask_Some_iff rd_Some_iff
                   wr_Some_iff
             split: bind_splits if_splits)
  with j that show thesis by blast
qed

lemma rotate_list_facts:
  assumes "distinct L" "L \<noteq> []"
  shows "distinct (tl L @ [L ! 0])" "set (tl L @ [L ! 0]) = set L"
proof -
  from assms(2) have L: "L = L ! 0 # tl L" by (cases L) auto
  from assms(1) L have "distinct (L ! 0 # tl L)" by simp
  then show "distinct (tl L @ [L ! 0])" by simp
  have "set L = set (L ! 0 # tl L)" using L by simp
  then show "set (tl L @ [L ! 0]) = set L" by auto
qed

lemma active_in_due:
  assumes ok: "listsOk cfg s" and c: "c < RTOS_NO_PRIO_CLASSES cfg" "0 < noDueTasksAry s ! c"
    and a: "pActiveTask s = dueList s c ! 0"
  obtains i where "i < RTOS_NO_TASKS cfg" "pActiveTask s = TaskPtr i"
    "prioClass (taskAry s ! i) = c" "pActiveTask s \<in> set (dueList s c)"
    "pActiveTask s \<notin> set (suspList s)"
proof -
  have "0 < length (dueList s c)" using dueList_length[OF listsOkD(1)[OF ok] c(1)] c(2) by simp
  then have m: "pActiveTask s \<in> set (dueList s c)" using a by simp
  from listsOkD(6)[OF ok c(1) m] listsOkD(5)[OF ok c(1) m] m that show thesis by blast
qed

lemma roundRobin_inv:
  assumes ok: "listsOk cfg s" and act: "activeOk cfg s"
    and rr: "RTOS_ROUND_ROBIN_MODE_SUPPORTED cfg" and r: "roundRobin s = Some (b, s1)"
  shows "listsOk cfg s1 \<and> pActiveTask s1 = pActiveTask s \<and> suspList s1 = suspList s
    \<and> noDueTasksAry s1 = noDueTasksAry s \<and> time s1 = time s
    \<and> length (taskAry s1) = length (taskAry s)
    \<and> (\<forall>i. TaskPtr i \<noteq> pActiveTask s \<longrightarrow> taskAry s1 ! i = taskAry s ! i)
    \<and> (\<not> b \<longrightarrow> pDueTaskAryAry s1 = pDueTaskAryAry s)
    \<and> (b \<longrightarrow> (\<exists>c j. c < RTOS_NO_PRIO_CLASSES cfg \<and> pActiveTask s = TaskPtr j
            \<and> j < RTOS_NO_TASKS cfg \<and> prioClass (taskAry s ! j) = c
            \<and> pActiveTask s = dueList s c ! 0 \<and> 1 < noDueTasksAry s ! c
            \<and> dueList s1 c = tl (dueList s c) @ [pActiveTask s]
            \<and> (\<forall>c' < RTOS_NO_PRIO_CLASSES cfg. c' \<noteq> c \<longrightarrow> dueList s1 c' = dueList s c')))
    \<and> (\<forall>j. pActiveTask s = TaskPtr j \<and> cntRoundRobin (taskAry s ! j) = 1 \<longrightarrow>
           cntRoundRobin (taskAry s1 ! j) = timeRoundRobin (taskAry s ! j)
           \<and> b = (1 < noDueTasksAry s ! prioClass (taskAry s ! j)))"
proof -
  note sh = shapeD[OF listsOkD(1)[OF ok]]
  from r obtain j where j: "pActiveTask s = TaskPtr j" "j < length (taskAry s)"
    and d: "(cntRoundRobin (taskAry s ! j) = 0 \<and> \<not> b \<and> s1 = s)
     \<or> (cntRoundRobin (taskAry s ! j) \<noteq> 0 \<and> cntRoundRobin (taskAry s ! j) \<noteq> 1 \<and> \<not> b
          \<and> s1 = s\<lparr>taskAry := (taskAry s)[j := (taskAry s ! j)
                       \<lparr>cntRoundRobin := cntRoundRobin (taskAry s ! j) - 1\<rparr>]\<rparr>)
     \<or> (cntRoundRobin (taskAry s ! j) = 1
          \<and> prioClass (taskAry s ! j) < length (noDueTasksAry s)
          \<and> noDueTasksAry s ! prioClass (taskAry s ! j) \<le> 1 \<and> \<not> b
          \<and> s1 = s\<lparr>taskAry := (taskAry s)[j := (taskAry s ! j)
                       \<lparr>cntRoundRobin := timeRoundRobin (taskAry s ! j)\<rparr>]\<rparr>)
     \<or> (cntRoundRobin (taskAry s ! j) = 1
          \<and> prioClass (taskAry s ! j) < length (noDueTasksAry s)
          \<and> prioClass (taskAry s ! j) < length (pDueTaskAryAry s)
          \<and> 1 < noDueTasksAry s ! prioClass (taskAry s ! j) \<and> b
          \<and> (\<exists>row1. shiftDown (pDueTaskAryAry s ! prioClass (taskAry s ! j)) 0
                         (dec8 (noDueTasksAry s ! prioClass (taskAry s ! j))) = Some row1
                \<and> dec8 (noDueTasksAry s ! prioClass (taskAry s ! j)) < length row1
                \<and> s1 = s\<lparr>taskAry := (taskAry s)[j := (taskAry s ! j)
                              \<lparr>cntRoundRobin := timeRoundRobin (taskAry s ! j)\<rparr>],
                          pDueTaskAryAry := (pDueTaskAryAry s)[prioClass (taskAry s ! j) :=
                              row1[dec8 (noDueTasksAry s ! prioClass (taskAry s ! j))
                                     := TaskPtr j]]\<rparr>))"
    by (rule roundRobin_cases)
  define t where "t = taskAry s ! j"
  define pc where "pc = prioClass t"
  define n where "n = noDueTasksAry s ! pc"
  note d' = d[folded t_def, folded pc_def, folded n_def]
  have zero_case: ?thesis if z: "cntRoundRobin t = 0"
  proof -
    from d' z have "\<not> b" "s1 = s" by auto
    with ok z j show ?thesis by (auto simp: t_def)
  qed
  have upd: "listsOk cfg (s\<lparr>taskAry := (taskAry s)[j := t\<lparr>cntRoundRobin := x\<rparr>]\<rparr>)"
    if "j < RTOS_NO_TASKS cfg" for x
  proof (rule listsOk_taskAry[OF ok])
    show "length ((taskAry s)[j := t\<lparr>cntRoundRobin := x\<rparr>]) = length (taskAry s)" by simp
    show "map prioClass ((taskAry s)[j := t\<lparr>cntRoundRobin := x\<rparr>]) = map prioClass (taskAry s)"
      using j(2) by (simp add: map_update list_update_same_conv t_def)
    show "cntRoundRobin ((taskAry s)[j := t\<lparr>cntRoundRobin := x\<rparr>] ! RTOS_NO_TASKS cfg) = 0"
      using that listsOkD(7)[OF ok rr] by simp
  qed
  from listsOkD(1)[OF ok] act show ?thesis
  proof (cases rule: activeOk_cases)
    case idle
    with j have "j = RTOS_NO_TASKS cfg" by (simp add: pIdleTask_def)
    with listsOkD(7)[OF ok rr] have "cntRoundRobin t = 0" by (simp add: t_def)
    then show ?thesis by (rule zero_case)
  next
    case (task c)
    from active_in_due[OF ok task(1,2,5)] j obtain
      jN: "j < RTOS_NO_TASKS cfg" and pcc: "pc = c"
      and inD: "pActiveTask s \<in> set (dueList s c)"
      by (auto simp: pc_def t_def)
    note u = upd[OF jN]
    have cP: "pc < RTOS_NO_PRIO_CLASSES cfg" using pcc task(1) by simp
    from d' consider (z) "cntRoundRobin t = 0"
      | (dec) "cntRoundRobin t \<noteq> 0" "cntRoundRobin t \<noteq> 1" "\<not> b"
          "s1 = s\<lparr>taskAry := (taskAry s)[j := t\<lparr>cntRoundRobin := cntRoundRobin t - 1\<rparr>]\<rparr>"
      | (reload) "cntRoundRobin t = 1" "n \<le> 1" "\<not> b"
          "s1 = s\<lparr>taskAry := (taskAry s)[j := t\<lparr>cntRoundRobin := timeRoundRobin t\<rparr>]\<rparr>"
      | (rotate) row1 where "cntRoundRobin t = 1" "1 < n" "b"
          "shiftDown (pDueTaskAryAry s ! pc) 0 (dec8 n) = Some row1" "dec8 n < length row1"
          "s1 = s\<lparr>taskAry := (taskAry s)[j := t\<lparr>cntRoundRobin := timeRoundRobin t\<rparr>],
                   pDueTaskAryAry := (pDueTaskAryAry s)[pc := row1[dec8 n := TaskPtr j]]\<rparr>"
      by blast
    then show ?thesis
    proof cases
      case z
      then show ?thesis by (rule zero_case)
    next
      case dec
      with u[of "cntRoundRobin t - 1"] j show ?thesis
        by (auto simp: suspList_def t_def)
    next
      case reload
      with u[of "timeRoundRobin t"] j show ?thesis
        by (auto simp: suspList_def t_def n_def pc_def)
    next
      case rotate
      let ?s' = "s\<lparr>taskAry := (taskAry s)[j := t\<lparr>cntRoundRobin := timeRoundRobin t\<rparr>]\<rparr>"
      let ?L = "dueList s pc"
      note ok' = u[of "timeRoundRobin t"]
      have nM: "n \<le> RTOS_MAX_NO_TASKS_IN_PRIO_CLASS cfg" using sh(7)[OF cP] by (simp add: n_def)
      have dn: "dec8 n = n - 1" using rotate(2) nM sh by (intro dec8_pos) auto
      have lenrow: "length row1 = RTOS_MAX_NO_TASKS_IN_PRIO_CLASS cfg"
        using shiftDown_length[OF rotate(4)] sh(6)[OF cP] by simp
      have tk: "take (n - 1) row1 = tl ?L"
      proof -
        have "take (n - 1) row1 = take 0 (pDueTaskAryAry s ! pc)
                @ drop (Suc 0) (take (Suc (n - 1)) (pDueTaskAryAry s ! pc))"
          using shiftDown_take[OF rotate(4)[unfolded dn]] by simp
        also have "\<dots> = tl ?L" using rotate(2) by (simp add: dueList_def n_def drop_Suc)
        finally show ?thesis .
      qed
      have L1: "dueList s1 pc = tl ?L @ [pActiveTask s]"
      proof -
        have "dueList s1 pc = take n (row1[n - 1 := TaskPtr j])"
          using rotate(6) dn cP sh by (simp add: dueList_def n_def)
        also have "\<dots> = take (n - 1) (row1[n - 1 := TaskPtr j]) @ [TaskPtr j]"
          using rotate(2,5) dn take_Suc_conv_app_nth[of "n - 1" "row1[n - 1 := TaskPtr j]"]
          by simp
        also have "\<dots> = tl ?L @ [pActiveTask s]" using tk j by simp
        finally show ?thesis .
      qed
      have Lo: "dueList s1 c' = dueList s c'" if "c' \<noteq> pc" for c'
        using rotate(6) that by (simp add: dueList_def)
      have a0: "pActiveTask s = ?L ! 0" using task(5) pcc by simp
      have Lne: "?L \<noteq> []" using inD pcc by auto
      note rot = rotate_list_facts[OF listsOkD(4)[OF ok cP] Lne]
      have L1set: "set (dueList s1 pc) = set ?L" "distinct (dueList s1 pc)"
        using L1 rot a0 by simp_all
      have su: "suspList s1 = suspList s" using rotate(6) by (simp add: suspList_def)
      have dset: "set (dueList s1 c') = set (dueList s c')" for c'
        using L1set Lo by (cases "c' = pc") simp_all
      have ddist: "distinct (dueList s1 c')" if "c' < RTOS_NO_PRIO_CLASSES cfg" for c'
        using L1set Lo[of c'] listsOkD(4)[OF ok that] by (cases "c' = pc") simp_all
      have pr: "prioClass (taskAry s1 ! i) = prioClass (taskAry s ! i)" for i
        using rotate(6) j(2) by (cases "i = j") (simp_all add: t_def)
      have shape1: "shape cfg s1"
      proof -
        have "length (pDueTaskAryAry s1 ! c') = RTOS_MAX_NO_TASKS_IN_PRIO_CLASS cfg"
          if "c' < RTOS_NO_PRIO_CLASSES cfg" for c'
          using rotate(6) lenrow sh(5) sh(6)[OF that] cP by (cases "c' = pc") simp_all
        then show ?thesis using rotate(6) sh listsOkD(1)[OF ok]
          by (simp add: shape_def)
      qed
      have ok1: "listsOk cfg s1"
      proof (rule listsOkI)
        show "shape cfg s1" by (rule shape1)
        show "distinct (suspList s1)" using su listsOkD(2)[OF ok] by simp
        show "\<exists>i<RTOS_NO_TASKS cfg. p = TaskPtr i" if "p \<in> set (suspList s1)" for p
          using that su listsOkD(3)[OF ok] by simp
        show "distinct (dueList s1 c')" if "c' < RTOS_NO_PRIO_CLASSES cfg" for c'
          using ddist[OF that] .
        show "p \<notin> set (suspList s1)"
          if "c' < RTOS_NO_PRIO_CLASSES cfg" "p \<in> set (dueList s1 c')" for c' p
          using that su dset listsOkD(5)[OF ok] by simp
        show "\<exists>i<RTOS_NO_TASKS cfg. p = TaskPtr i \<and> prioClass (taskAry s1 ! i) = c'"
          if "c' < RTOS_NO_PRIO_CLASSES cfg" "p \<in> set (dueList s1 c')" for c' p
          using that dset pr listsOkD(6)[OF ok that(1), of p] by simp
        show "cntRoundRobin (taskAry s1 ! RTOS_NO_TASKS cfg) = 0"
          using rotate(6) jN listsOkD(7)[OF ok rr] by simp
      qed
      have ex: "\<exists>c j. c < RTOS_NO_PRIO_CLASSES cfg \<and> pActiveTask s = TaskPtr j
            \<and> j < RTOS_NO_TASKS cfg \<and> prioClass (taskAry s ! j) = c
            \<and> pActiveTask s = dueList s c ! 0 \<and> 1 < noDueTasksAry s ! c
            \<and> dueList s1 c = tl (dueList s c) @ [pActiveTask s]
            \<and> (\<forall>c' < RTOS_NO_PRIO_CLASSES cfg. c' \<noteq> c \<longrightarrow> dueList s1 c' = dueList s c')"
        using cP j jN a0 rotate(2) L1 Lo by (auto simp: pc_def t_def n_def)
      have rest: "pActiveTask s1 = pActiveTask s" "noDueTasksAry s1 = noDueTasksAry s"
        "time s1 = time s" "length (taskAry s1) = length (taskAry s)"
        "\<forall>i. TaskPtr i \<noteq> pActiveTask s \<longrightarrow> taskAry s1 ! i = taskAry s ! i"
        "\<forall>j. pActiveTask s = TaskPtr j \<and> cntRoundRobin (taskAry s ! j) = 1 \<longrightarrow>
           cntRoundRobin (taskAry s1 ! j) = timeRoundRobin (taskAry s ! j)
           \<and> b = (1 < noDueTasksAry s ! prioClass (taskAry s ! j))"
        using rotate j by (auto simp: t_def pc_def n_def)
      from ok1 su ex rest rotate(3) show ?thesis by blast
    qed
  qed
qed

section \<open>Timer tic and posting of events keep the data consistent\<close>

lemma idle_not_suspended:
  assumes "listsOk cfg s"
  shows "TaskPtr (RTOS_NO_TASKS cfg) \<notin> set (suspList s)"
  using listsOkD(3)[OF assms, of "TaskPtr (RTOS_NO_TASKS cfg)"] by auto

lemma forSuspended_inv:
  assumes ok: "listsOk cfg s" and f: "forSuspended body 0 s = Some s1"
    and p: "\<And>t. prioClass (body t) = prioClass t"
  shows "listsOk cfg s1" and "s1 = s\<lparr>taskAry := taskAry s1\<rparr>"
    and "activeOk cfg s1 = activeOk cfg s"
    and "suspList s1 = suspList s" and "dueList s1 = dueList s"
    and "\<And>i. TaskPtr i \<notin> set (suspList s) \<Longrightarrow> taskAry s1 ! i = taskAry s ! i"
proof -
  note fr = forSuspended_frame[OF f]
  have un: "taskAry s1 ! i = taskAry s ! i" if "TaskPtr i \<notin> set (suspList s)" for i
    using forSuspended_unchanged[OF f, of i] that by simp
  have "listsOk cfg (s\<lparr>taskAry := taskAry s1\<rparr>)"
  proof (rule listsOk_taskAry[OF ok])
    show "length (taskAry s1) = length (taskAry s)" using fr by simp
    show "map prioClass (taskAry s1) = map prioClass (taskAry s)"
      using forSuspended_proj[OF f, of prioClass] p by simp
    show "cntRoundRobin (taskAry s1 ! RTOS_NO_TASKS cfg) = 0"
      if "RTOS_ROUND_ROBIN_MODE_SUPPORTED cfg"
      using un[OF idle_not_suspended[OF ok]] listsOkD(7)[OF ok that] by simp
  qed
  with fr show "listsOk cfg s1" by simp
  from fr show "s1 = s\<lparr>taskAry := taskAry s1\<rparr>" by simp
  have "activeOk cfg (s\<lparr>taskAry := taskAry s1\<rparr>) = activeOk cfg s" by simp
  with fr show "activeOk cfg s1 = activeOk cfg s" by simp
  have "suspList (s\<lparr>taskAry := taskAry s1\<rparr>) = suspList s"
    "dueList (s\<lparr>taskAry := taskAry s1\<rparr>) = dueList s"
    by (simp_all add: suspList_def dueList_def fun_eq_iff)
  with fr show "suspList s1 = suspList s" "dueList s1 = dueList s" by simp_all
  show "\<And>i. TaskPtr i \<notin> set (suspList s) \<Longrightarrow> taskAry s1 ! i = taskAry s ! i" by (rule un)
qed

lemma activeOk_cong:
  "noDueTasksAry s1 = noDueTasksAry s \<Longrightarrow> pDueTaskAryAry s1 = pDueTaskAryAry s \<Longrightarrow>
   pActiveTask s1 = pActiveTask s \<Longrightarrow> activeOk cfg s1 = activeOk cfg s"
  by (simp add: activeOk_def split: option.splits)

lemma serveTimers_prio [simp]: "prioClass (serveTimers cfg now t) = prioClass t"
  by (simp add: serveTimers_def Let_def)

lemma postEvent_prio [simp]: "prioClass (postEvent v t) = prioClass t"
  by (simp add: postEvent_def)

lemma onTimerTic_cases:
  "onTimerTic cfg s = Some (b, s1) \<Longrightarrow>
   \<exists>s2 isNew s3.
     forSuspended (serveTimers cfg (time s + 1)) 0 (s\<lparr>time := time s + 1\<rparr>) = Some s2
     \<and> (if RTOS_ROUND_ROBIN_MODE_SUPPORTED cfg then roundRobin s2 = Some (isNew, s3)
         else \<not> isNew \<and> s3 = s2)
     \<and> checkForTaskActivation cfg isNew s3 = Some (b, s1)"
  by (auto simp: onTimerTic_def Let_def split: bind_splits if_splits)

lemma kernelInvD:
  assumes "kernelInv cfg s"
  shows "listsOk cfg s" "activeOk cfg s" "shape cfg s"
  using assms by (auto simp: kernelInv_def listsOk_def)

lemma onTimerTic_inv:
  assumes inv: "kernelInv cfg s" and t: "onTimerTic cfg s = Some (b, s1)"
  shows "kernelInv cfg s1" and "b = (pActiveTask s1 \<noteq> pActiveTask s)"
proof -
  note ok = kernelInvD(1)[OF inv] and act = kernelInvD(2)[OF inv]
  let ?s0 = "s\<lparr>time := time s + 1\<rparr>"
  from onTimerTic_cases[OF t] obtain s2 isNew s3 where
    f: "forSuspended (serveTimers cfg (time s + 1)) 0 ?s0 = Some s2"
    and rrc: "if RTOS_ROUND_ROBIN_MODE_SUPPORTED cfg then roundRobin s2 = Some (isNew, s3)
         else \<not> isNew \<and> s3 = s2"
    and c: "checkForTaskActivation cfg isNew s3 = Some (b, s1)"
    by blast
  have ok0: "listsOk cfg ?s0" "activeOk cfg ?s0" using ok act by simp_all
  note fi = forSuspended_inv[OF ok0(1) f serveTimers_prio]
  have ok2: "listsOk cfg s2" and act2: "activeOk cfg s2" and a2: "pActiveTask s2 = pActiveTask s"
    using fi(1) fi(3) ok0(2) fi(2) by (simp_all, metis kernel.select_convs(3) kernel.surjective kernel.update_convs(2) kernel.update_convs(1))
  have 3: "listsOk cfg s3 \<and> pActiveTask s3 = pActiveTask s
         \<and> (RTOS_ROUND_ROBIN_MODE_SUPPORTED cfg \<and> isNew
              \<longrightarrow> (\<exists>c < RTOS_NO_PRIO_CLASSES cfg. 0 < noDueTasksAry s3 ! c))
         \<and> (\<not> (RTOS_ROUND_ROBIN_MODE_SUPPORTED cfg \<and> isNew) \<longrightarrow> activeOk cfg s3)"
  proof (cases "RTOS_ROUND_ROBIN_MODE_SUPPORTED cfg")
    case False
    with rrc ok2 act2 a2 show ?thesis by simp
  next
    case True
    with rrc have r: "roundRobin s2 = Some (isNew, s3)" by simp
    note ri = roundRobin_inv[OF ok2 act2 True r]
    have A: "activeOk cfg s3" if "\<not> isNew"
    proof -
      from ri that have "pDueTaskAryAry s3 = pDueTaskAryAry s2" "noDueTasksAry s3 = noDueTasksAry s2"
        "pActiveTask s3 = pActiveTask s2" by blast+
      with act2 activeOk_cong[of s3 s2 cfg] show ?thesis by simp
    qed
    have B: "\<exists>c < RTOS_NO_PRIO_CLASSES cfg. 0 < noDueTasksAry s3 ! c" if "isNew"
    proof -
      from ri that obtain c where "c < RTOS_NO_PRIO_CLASSES cfg" "1 < noDueTasksAry s2 ! c"
        by blast
      moreover from ri have "noDueTasksAry s3 = noDueTasksAry s2" by blast
      ultimately show ?thesis by auto
    qed
    from ri have C: "listsOk cfg s3" "pActiveTask s3 = pActiveTask s2" by blast+
    from A B C a2 True show ?thesis by auto
  qed
  note ci = checkForTaskActivation_inv[OF _ c, of ]
  from 3 have ok3: "listsOk cfg s3" by blast
  have h1: "\<exists>c<RTOS_NO_PRIO_CLASSES cfg. 0 < noDueTasksAry s3 ! c"
    if "RTOS_ROUND_ROBIN_MODE_SUPPORTED cfg \<and> isNew" using 3 that by blast
  have h2: "activeOk cfg s3" if "\<not> (RTOS_ROUND_ROBIN_MODE_SUPPORTED cfg \<and> isNew)"
    using 3 that by blast
  from checkForTaskActivation_inv(1-3)[OF ok3 c h1 h2] 3
  show "kernelInv cfg s1" "b = (pActiveTask s1 \<noteq> pActiveTask s)"
    by (simp_all add: kernelInv_def)
qed

lemma setEvent_inv:
  assumes inv: "kernelInv cfg s" and t: "setEvent cfg v s = Some (b, s1)"
  shows "kernelInv cfg s1" and "b = (pActiveTask s1 \<noteq> pActiveTask s)"
proof -
  note ok = kernelInvD(1)[OF inv] and act = kernelInvD(2)[OF inv]
  from t obtain s2 where
    f: "forSuspended (postEvent (v AND NOT (RTOS_EVT_ABSOLUTE_TIMER cfg
                                            OR RTOS_EVT_DELAY_TIMER cfg))) 0 s = Some s2"
    and c: "checkForTaskActivation cfg False s2 = Some (b, s1)"
    by (auto simp: setEvent_def Let_def split: bind_splits)
  note fi = forSuspended_inv[OF ok f postEvent_prio]
  have a2: "pActiveTask s2 = pActiveTask s" using fi(2)
    by (metis kernel.select_convs(3) kernel.surjective kernel.update_convs(2))
  have act2: "activeOk cfg s2" using fi(3) act by simp
  from checkForTaskActivation_inv(1-3)[OF fi(1) c] act2 a2
  show "kernelInv cfg s1" "b = (pActiveTask s1 \<noteq> pActiveTask s)"
    by (simp_all add: kernelInv_def)
qed

section \<open>Suspending the active task keeps the data consistent\<close>

lemma shiftDown_Some_ex:
  "n < length a \<or> n \<le> u \<Longrightarrow> \<exists>b. shiftDown a u n = Some b"
proof (induction a u n rule: shiftDown.induct)
  case (1 a u n)
  show ?case
  proof (cases "u < n")
    case False
    then show ?thesis by (subst shiftDown.simps) simp
  next
    case True
    with 1(2) have n: "n < length a" by simp
    with True have r: "rd a (u + 1) = Some (a ! (u + 1))" by (simp add: rd_def)
    have "\<exists>b. shiftDown (a[u := a ! (u + 1)]) (u + 1) n = Some b"
      using 1(1)[OF True r] n by simp
    then show ?thesis using True r by (subst shiftDown.simps) simp
  qed
qed

lemma listsOk_task_upd:
  assumes "listsOk cfg s" "j < length (taskAry s)" "prioClass t = prioClass (taskAry s ! j)"
    "cntRoundRobin t = cntRoundRobin (taskAry s ! j)"
  shows "listsOk cfg (s\<lparr>taskAry := (taskAry s)[j := t]\<rparr>)"
proof (rule listsOk_taskAry[OF assms(1)])
  show "length ((taskAry s)[j := t]) = length (taskAry s)" by simp
  show "map prioClass ((taskAry s)[j := t]) = map prioClass (taskAry s)"
    using assms(2,3) by (simp add: map_update list_update_same_conv)
  show "cntRoundRobin ((taskAry s)[j := t] ! RTOS_NO_TASKS cfg) = 0"
    if "RTOS_ROUND_ROBIN_MODE_SUPPORTED cfg"
    using listsOkD(7)[OF assms(1) that] assms(2,4)
    by (cases "j = RTOS_NO_TASKS cfg") simp_all
qed

lemma suspended_count:
  assumes ok: "listsOk cfg s" and j: "j < RTOS_NO_TASKS cfg" "TaskPtr j \<notin> set (suspList s)"
  shows "noSuspendedTasks s < RTOS_NO_TASKS cfg"
proof -
  have sub: "set (suspList s) \<subseteq> TaskPtr ` ({0..<RTOS_NO_TASKS cfg} - {j})"
  proof
    fix p assume p: "p \<in> set (suspList s)"
    from listsOkD(3)[OF ok p] obtain i where "i < RTOS_NO_TASKS cfg" "p = TaskPtr i" by blast
    with p j(2) show "p \<in> TaskPtr ` ({0..<RTOS_NO_TASKS cfg} - {j})" by auto
  qed
  have "card (set (suspList s)) \<le> card (TaskPtr ` ({0..<RTOS_NO_TASKS cfg} - {j}))"
    by (rule card_mono[OF _ sub]) simp
  also have "\<dots> = card ({0..<RTOS_NO_TASKS cfg} - {j})"
    by (rule card_image) (simp add: inj_on_def)
  also have "\<dots> = RTOS_NO_TASKS cfg - 1" using j(1) by simp
  finally have "length (suspList s) \<le> RTOS_NO_TASKS cfg - 1"
    using distinct_card[OF listsOkD(2)[OF ok]] by simp
  with j(1) suspList_length[OF listsOkD(1)[OF ok]] show ?thesis by simp
qed

lemma storeResumeCondition_static [simp]:
  "prioClass (storeResumeCondition cfg now t m a tmo) = prioClass t"
  "cntRoundRobin (storeResumeCondition cfg now t m a tmo) = cntRoundRobin t"
  "timeRoundRobin (storeResumeCondition cfg now t m a tmo) = timeRoundRobin t"
  "postedEventVec (storeResumeCondition cfg now t m a tmo) = postedEventVec t"
  "eventMask (storeResumeCondition cfg now t m a tmo) = m"
  "waitForAnyEvent (storeResumeCondition cfg now t m a tmo) = (\<not> a)"
  by (simp_all add: storeResumeCondition_def Let_def)

lemma waitForEvent_inv:
  assumes inv: "kernelInv cfg s" and ni: "pActiveTask s \<noteq> pIdleTask cfg"
  shows "\<exists>s1 j c. waitForEvent cfg m a tmo s = Some s1
     \<and> pActiveTask s = TaskPtr j \<and> j < RTOS_NO_TASKS cfg
     \<and> c < RTOS_NO_PRIO_CLASSES cfg \<and> prioClass (taskAry s ! j) = c
     \<and> dueList s c \<noteq> [] \<and> pActiveTask s = dueList s c ! 0
     \<and> dueList s1 c = tl (dueList s c)
     \<and> (\<forall>c' < RTOS_NO_PRIO_CLASSES cfg. c' \<noteq> c \<longrightarrow> dueList s1 c' = dueList s c')
     \<and> taskAry s1 = (taskAry s)[j := storeResumeCondition cfg (time s) (taskAry s ! j) m a tmo]
     \<and> suspList s1 = suspList s @ [pActiveTask s]
     \<and> pSuspendedTask s1 = pActiveTask s
     \<and> time s1 = time s
     \<and> kernelInv cfg s1
     \<and> pActiveTask s1 \<noteq> pActiveTask s"
proof -
  note ok = kernelInvD(1)[OF inv] and act = kernelInvD(2)[OF inv]
  note sh = shapeD[OF listsOkD(1)[OF ok]]
  from listsOkD(1)[OF ok] act show ?thesis
  proof (cases rule: activeOk_cases)
    case idle
    with ni show ?thesis by simp
  next
    case (task c)
    from active_in_due[OF ok task(1,2,5)] obtain j where
      jN: "j < RTOS_NO_TASKS cfg" and j: "pActiveTask s = TaskPtr j"
      and pc: "prioClass (taskAry s ! j) = c"
      and inD: "pActiveTask s \<in> set (dueList s c)"
      and nS: "pActiveTask s \<notin> set (suspList s)"
      by blast
    define n where "n = noDueTasksAry s ! c"
    define row where "row = pDueTaskAryAry s ! c"
    define L where "L = dueList s c"
    have nM: "n \<le> RTOS_MAX_NO_TASKS_IN_PRIO_CLASS cfg" "0 < n"
      using sh(7)[OF task(1)] task(2) by (simp_all add: n_def)
    have dn: "dec8 n = n - 1" using nM sh by (intro dec8_pos) auto
    have lrow: "length row = RTOS_MAX_NO_TASKS_IN_PRIO_CLASS cfg"
      using sh(6)[OF task(1)] by (simp add: row_def)
    have "n - 1 < length row \<or> n - 1 \<le> 0" using nM lrow by auto
    from shiftDown_Some_ex[OF this] obtain row1 where
      row1: "shiftDown row 0 (n - 1) = Some row1" by blast
    have lrow1: "length row1 = RTOS_MAX_NO_TASKS_IN_PRIO_CLASS cfg"
      using shiftDown_length[OF row1] lrow by simp
    have tk: "take (n - 1) row1 = tl L"
    proof -
      have "take (n - 1) row1 = take 0 row @ drop (Suc 0) (take (Suc (n - 1)) row)"
        using shiftDown_take[OF row1] by simp
      also have "\<dots> = tl L" using nM by (simp add: L_def dueList_def n_def row_def drop_Suc)
      finally show ?thesis .
    qed
    define k where "k = noSuspendedTasks s"
    have kN: "k < RTOS_NO_TASKS cfg" using suspended_count[OF ok jN] nS j by (simp add: k_def)
    have ik: "inc8 k = k + 1" using kN sh by (intro inc8_small) simp
    define t1 where "t1 = storeResumeCondition cfg (time s) (taskAry s ! j) m a tmo"
    define nd1 where "nd1 = (noDueTasksAry s)[c := n - 1]"
    define due1 where "due1 = (pDueTaskAryAry s)[c := row1]"
    define s6 where "s6 = s\<lparr>taskAry := (taskAry s)[j := t1],
        pDueTaskAryAry := due1, noDueTasksAry := nd1,
        pSuspendedTaskAry := (pSuspendedTaskAry s)[k := TaskPtr j],
        noSuspendedTasks := k + 1,
        pSuspendedTask := TaskPtr j, pActiveTask := pIdleTask cfg\<rparr>"
    have lnd1: "length nd1 = RTOS_NO_PRIO_CLASSES cfg" using sh by (simp add: nd1_def)
    from searchDue_total[of "RTOS_NO_PRIO_CLASSES cfg" nd1] lnd1 obtain r where
      r: "searchDue nd1 (RTOS_NO_PRIO_CLASSES cfg) = Some r" by auto
    define s1 where "s1 = (case r of None \<Rightarrow> s6 | Some c' \<Rightarrow> s6\<lparr>pActiveTask := due1 ! c' ! 0\<rparr>)"
    have rsome: "c' < RTOS_NO_PRIO_CLASSES cfg \<and> 0 < nd1 ! c'" if "r = Some c'" for c'
      using r that by (simp add: searchDue_Some_iff)
    have ldue1: "length (due1 ! c') = RTOS_MAX_NO_TASKS_IN_PRIO_CLASS cfg"
      if "c' < RTOS_NO_PRIO_CLASSES cfg" for c'
      using sh(5) sh(6)[OF that] lrow1 task(1) by (cases "c' = c") (simp_all add: due1_def)
    have nd1M: "nd1 ! c' \<le> RTOS_MAX_NO_TASKS_IN_PRIO_CLASS cfg"
      if "c' < RTOS_NO_PRIO_CLASSES cfg" for c'
      using sh(4) sh(7)[OF that] nM task(1) by (cases "c' = c") (simp_all add: nd1_def)
    have w: "waitForEvent cfg m a tmo s = Some s1"
    proof -
      have g: "getTask s (pActiveTask s) = Some (taskAry s ! j)"
        using j jN sh by (simp add: getTask_def rd_def)
      have r1: "rd (noDueTasksAry s) c = Some n" using task(1) sh by (simp add: rd_def n_def)
      have r2: "rd (pDueTaskAryAry s) c = Some row" using task(1) sh by (simp add: rd_def row_def)
      have p: "putTask (s\<lparr>noDueTasksAry := nd1, pDueTaskAryAry := due1\<rparr>) (TaskPtr j) t1
            = Some (s\<lparr>noDueTasksAry := nd1, pDueTaskAryAry := due1,
                      taskAry := (taskAry s)[j := t1]\<rparr>)"
        using jN sh by (simp add: putTask_def wr_def)
      have w1: "wr (pSuspendedTaskAry s) k (TaskPtr j) = Some ((pSuspendedTaskAry s)[k := TaskPtr j])"
        using kN sh by (simp add: wr_def)
      note defs = n_def row_def k_def nd1_def due1_def t1_def
      note facts = g r1[unfolded defs] r2[unfolded defs] row1[unfolded defs] p[unfolded defs]
          w1[unfolded defs]
      show ?thesis
      proof (cases r)
        case None
        with r have r0: "searchDue nd1 (RTOS_NO_PRIO_CLASSES cfg) = Some None" by simp
        show ?thesis
          unfolding waitForEvent_def
          using facts r0[unfolded defs]
          by (simp add: Let_def j pc dn[unfolded defs] ik[unfolded defs] s1_def s6_def None defs)
      next
        case (Some c')
        with r have r0: "searchDue nd1 (RTOS_NO_PRIO_CLASSES cfg) = Some (Some c')" by simp
        from rsome[OF Some] ldue1[of c'] nd1M[of c'] sh(5)
        have rr: "rd due1 c' = Some (due1 ! c')" "rd (due1 ! c') 0 = Some (due1 ! c' ! 0)"
          by (simp_all add: rd_def due1_def)
        show ?thesis
          unfolding waitForEvent_def
          using facts r0[unfolded defs] rr[unfolded defs]
          by (simp add: Let_def j pc dn[unfolded defs] ik[unfolded defs] s1_def s6_def Some defs)
      qed
    qed
    have F: "taskAry s1 = (taskAry s)[j := t1]" "pDueTaskAryAry s1 = due1"
      "noDueTasksAry s1 = nd1" "pSuspendedTaskAry s1 = (pSuspendedTaskAry s)[k := TaskPtr j]"
      "noSuspendedTasks s1 = k + 1" "pSuspendedTask s1 = TaskPtr j" "time s1 = time s"
      "pActiveTask s1 = (case r of None \<Rightarrow> pIdleTask cfg | Some c' \<Rightarrow> due1 ! c' ! 0)"
      by (simp_all add: s1_def s6_def split: option.splits)
    have su: "suspList s1 = suspList s @ [TaskPtr j]"
      using F(4,5) kN sh(3) by (simp add: suspList_def k_def take_Suc_conv_app_nth)
    have du: "dueList s1 c' = (if c' = c then tl L else dueList s c')"
      if "c' < RTOS_NO_PRIO_CLASSES cfg" for c'
      using F(2,3) that tk sh(4,5) task(1)
      by (simp add: dueList_def due1_def nd1_def L_def)
    have Ld: "distinct L" using listsOkD(4)[OF ok task(1)] by (simp add: L_def)
    have Lne: "L \<noteq> []" using inD by (auto simp: L_def)
    have Lhd: "L = TaskPtr j # tl L" using Lne task(5) j by (cases L) (auto simp: L_def)
    have notj: "p \<noteq> TaskPtr j \<and> p \<in> set (dueList s c')"
      if "c' < RTOS_NO_PRIO_CLASSES cfg" "p \<in> set (dueList s1 c')" for c' p
    proof (cases "c' = c")
      case True
      with du[OF that(1)] that(2) have "p \<in> set (tl L)" by simp
      moreover from Ld Lhd have "TaskPtr j \<notin> set (tl L)" by (metis distinct.simps(2))
      ultimately show ?thesis using True Lhd by (metis L_def list.set_intros(2))
    next
      case False
      with du[OF that(1)] that(2) have m: "p \<in> set (dueList s c')" by simp
      from listsOkD(6)[OF ok that(1) m] obtain i where
        "p = TaskPtr i" "prioClass (taskAry s ! i) = c'" by blast
      with False pc m show ?thesis by auto
    qed
    have pr: "prioClass (taskAry s1 ! i) = prioClass (taskAry s ! i)" for i
      using F(1) jN sh(2) by (cases "i = j") (simp_all add: t1_def)
    have shape1: "shape cfg s1"
      using F sh(1-5,8) ldue1 nd1M kN lnd1
      by (simp add: shape_def due1_def k_def)
    have ok1: "listsOk cfg s1"
    proof (rule listsOkI)
      show "shape cfg s1" by (rule shape1)
      show "distinct (suspList s1)" using su listsOkD(2)[OF ok] nS j by simp
      show "\<exists>i<RTOS_NO_TASKS cfg. p = TaskPtr i" if "p \<in> set (suspList s1)" for p
        using that su listsOkD(3)[OF ok, of p] jN by auto
      show "distinct (dueList s1 c')" if "c' < RTOS_NO_PRIO_CLASSES cfg" for c'
        using du[OF that] listsOkD(4)[OF ok that] Ld by (simp add: distinct_tl)
      show "p \<notin> set (suspList s1)"
        if "c' < RTOS_NO_PRIO_CLASSES cfg" "p \<in> set (dueList s1 c')" for c' p
        using notj[OF that] su listsOkD(5)[OF ok that(1), of p] by simp
      show "\<exists>i<RTOS_NO_TASKS cfg. p = TaskPtr i \<and> prioClass (taskAry s1 ! i) = c'"
        if "c' < RTOS_NO_PRIO_CLASSES cfg" "p \<in> set (dueList s1 c')" for c' p
        using notj[OF that] pr listsOkD(6)[OF ok that(1), of p] by simp
      show "cntRoundRobin (taskAry s1 ! RTOS_NO_TASKS cfg) = 0"
        if "RTOS_ROUND_ROBIN_MODE_SUPPORTED cfg"
        using F(1) jN listsOkD(7)[OF ok that] by simp
    qed
    have act1: "activeOk cfg s1"
      using r F(2,3,8) by (simp add: activeOk_def split: option.splits)
    have ne: "pActiveTask s1 \<noteq> TaskPtr j"
    proof (cases r)
      case None
      with F(8) jN show ?thesis by (simp add: pIdleTask_def)
    next
      case (Some c')
      from rsome[OF Some] have c': "c' < RTOS_NO_PRIO_CLASSES cfg" "0 < nd1 ! c'" by simp_all
      have "length (dueList s1 c') = nd1 ! c'"
        using dueList_length[OF shape1 c'(1)] F(3) by simp
      with c'(2) have "dueList s1 c' ! 0 \<in> set (dueList s1 c')" by simp
      moreover have "dueList s1 c' ! 0 = pActiveTask s1"
        using F(2,3,8) Some c'(2) by (simp add: dueList_def)
      ultimately show ?thesis using notj[OF c'(1)] by auto
    qed
    have "dueList s1 c = tl (dueList s c)
     \<and> (\<forall>c' < RTOS_NO_PRIO_CLASSES cfg. c' \<noteq> c \<longrightarrow> dueList s1 c' = dueList s c')"
      using du task(1) by (simp add: L_def)
    with w j jN task(1) pc Lne task(5) F(1,6,7) su ok1 act1 ne
    show ?thesis
      by (auto simp: kernelInv_def L_def t1_def)
  qed
qed

section \<open>Context switch, overrun counter and initialization\<close>

lemma PUSH_RET_CODE_inv:
  assumes inv: "kernelInv cfg s" and p: "PUSH_RET_CODE_OF_CONTEXT_SWITCH s = Some s1"
  shows "kernelInv cfg s1" and "pActiveTask s1 = pActiveTask s"
proof -
  note ok = kernelInvD(1)[OF inv] and act = kernelInvD(2)[OF inv]
  from p obtain j where j: "pActiveTask s = TaskPtr j" "j < length (taskAry s)"
    and d: "s1 = s \<or> s1 = s\<lparr>taskAry := (taskAry s)[j := (taskAry s ! j)\<lparr>postedEventVec := 0\<rparr>]\<rparr>"
    by (auto simp: PUSH_RET_CODE_OF_CONTEXT_SWITCH_def getTask_Some_iff putTask_Some_iff
             split: bind_splits if_splits)
  have "listsOk cfg (s\<lparr>taskAry := (taskAry s)[j := (taskAry s ! j)\<lparr>postedEventVec := 0\<rparr>]\<rparr>)"
    by (rule listsOk_task_upd[OF ok j(2)]) simp_all
  with d ok act show "kernelInv cfg s1" by (auto simp: kernelInv_def)
  from d show "pActiveTask s1 = pActiveTask s" by auto
qed

lemma PUSH_RET_CODE_total:
  assumes inv: "kernelInv cfg s"
  shows "\<exists>s1. PUSH_RET_CODE_OF_CONTEXT_SWITCH s = Some s1"
proof -
  note ok = kernelInvD(1)[OF inv] and act = kernelInvD(2)[OF inv]
  note sh = shapeD[OF listsOkD(1)[OF ok]]
  have "\<exists>j. pActiveTask s = TaskPtr j \<and> j < length (taskAry s)"
    using listsOkD(1)[OF ok] act
  proof (cases rule: activeOk_cases)
    case idle
    then show ?thesis using sh by (simp add: pIdleTask_def)
  next
    case (task c)
    from active_in_due[OF ok task(1,2,5)] obtain i where
      "i < RTOS_NO_TASKS cfg" "pActiveTask s = TaskPtr i" by blast
    with sh show ?thesis by simp
  qed
  then show ?thesis
    by (auto simp: PUSH_RET_CODE_OF_CONTEXT_SWITCH_def getTask_def putTask_def rd_def wr_def)
qed

lemma getTaskOverrunCounter_inv:
  assumes inv: "kernelInv cfg s" and p: "rtos_getTaskOverrunCounter idx doReset s = Some (r, s1)"
  shows "kernelInv cfg s1"
proof -
  note ok = kernelInvD(1)[OF inv] and act = kernelInvD(2)[OF inv]
  from p have j: "idx < length (taskAry s)"
    and d: "s1 = s \<or> s1 = s\<lparr>taskAry := (taskAry s)[idx := (taskAry s ! idx)\<lparr>cntOverrun := 0\<rparr>]\<rparr>"
    by (auto simp: rtos_getTaskOverrunCounter_def getTask_Some_iff putTask_Some_iff
             split: bind_splits if_splits)
  have "listsOk cfg (s\<lparr>taskAry := (taskAry s)[idx := (taskAry s ! idx)\<lparr>cntOverrun := 0\<rparr>]\<rparr>)"
    by (rule listsOk_task_upd[OF ok j]) simp_all
  with d ok act show "kernelInv cfg s1" by (auto simp: kernelInv_def)
qed

lemma rtos_initializeTask_frame:
  "rtos_initializeTask cfg call s = Some s1 \<Longrightarrow>
   s1 = s\<lparr>taskAry := taskAry s1\<rparr> \<and> length (taskAry s1) = length (taskAry s)"
  by (cases call) (auto simp: putTask_Some_iff Let_def split: bind_splits)

lemma applSetup_frame:
  "applSetup cfg calls s = Some s1 \<Longrightarrow>
   s1 = s\<lparr>taskAry := taskAry s1\<rparr> \<and> length (taskAry s1) = length (taskAry s)"
proof (induction calls arbitrary: s)
  case Nil
  then show ?case by simp
next
  case (Cons c cs)
  from Cons.prems obtain s2 where a: "rtos_initializeTask cfg c s = Some s2"
    and b: "applSetup cfg cs s2 = Some s1" by (auto split: bind_splits)
  from rtos_initializeTask_frame[OF a] Cons.IH[OF b] show ?case
    by (metis kernel.surjective kernel.update_convs(2))
qed

lemma initRTOS_inv:
  assumes v: "validConfig cfg" and i: "rtos_initRTOS cfg calls = Some s"
  shows "kernelInv cfg s"
proof -
  from i obtain s1 idle where st: "applSetup cfg calls (staticData cfg) = Some s1"
    and idle: "getTask s1 (pIdleTask cfg) = Some idle"
    and s: "s = s1\<lparr>taskAry := map (initTaskObject cfg) (take (RTOS_NO_TASKS cfg) (taskAry s1))
                                @ [initIdleTaskObject cfg idle],
                    pSuspendedTaskAry := map TaskPtr [0..<RTOS_NO_TASKS cfg],
                    noSuspendedTasks := RTOS_NO_TASKS cfg,
                    noDueTasksAry := replicate (RTOS_NO_PRIO_CLASSES cfg) 0,
                    pActiveTask := pIdleTask cfg,
                    pSuspendedTask := pIdleTask cfg\<rparr>"
    by (auto simp: rtos_initRTOS_def split: bind_splits)
  from applSetup_frame[OF st] have
    fr: "s1 = (staticData cfg)\<lparr>taskAry := taskAry s1\<rparr>"
      "length (taskAry s1) = RTOS_NO_TASKS cfg + 1"
    by (simp_all add: staticData_def)
  have F: "length (taskAry s) = RTOS_NO_TASKS cfg + 1"
    "taskAry s ! RTOS_NO_TASKS cfg = initIdleTaskObject cfg idle"
    "pSuspendedTaskAry s = map TaskPtr [0..<RTOS_NO_TASKS cfg]"
    "noSuspendedTasks s = RTOS_NO_TASKS cfg"
    "noDueTasksAry s = replicate (RTOS_NO_PRIO_CLASSES cfg) 0"
    "pActiveTask s = pIdleTask cfg"
    "pDueTaskAryAry s = replicate (RTOS_NO_PRIO_CLASSES cfg)
                         (replicate (RTOS_MAX_NO_TASKS_IN_PRIO_CLASS cfg) Null)"
    using s fr(2) by (simp_all add: nth_append, subst fr(1), simp add: staticData_def)
  have su: "suspList s = map TaskPtr [0..<RTOS_NO_TASKS cfg]"
    using F by (simp add: suspList_def)
  have du: "dueList s c = []" if "c < RTOS_NO_PRIO_CLASSES cfg" for c
    using F that by (simp add: dueList_def)
  have ok: "listsOk cfg s"
  proof (rule listsOkI)
    show "shape cfg s" using v F by (simp add: shape_def)
    show "distinct (suspList s)" using su by (simp add: distinct_map inj_on_def)
    show "\<exists>i<RTOS_NO_TASKS cfg. p = TaskPtr i" if "p \<in> set (suspList s)" for p
      using that su by auto
    show "distinct (dueList s c)" if "c < RTOS_NO_PRIO_CLASSES cfg" for c
      using du[OF that] by simp
    show "p \<notin> set (suspList s)" if "c < RTOS_NO_PRIO_CLASSES cfg" "p \<in> set (dueList s c)" for c p
      using du[OF that(1)] that(2) by simp
    show "\<exists>i<RTOS_NO_TASKS cfg. p = TaskPtr i \<and> prioClass (taskAry s ! i) = c"
      if "c < RTOS_NO_PRIO_CLASSES cfg" "p \<in> set (dueList s c)" for c p
      using du[OF that(1)] that(2) by simp
    show "cntRoundRobin (taskAry s ! RTOS_NO_TASKS cfg) = 0"
      if "RTOS_ROUND_ROBIN_MODE_SUPPORTED cfg"
      using F(2) that by (simp add: initIdleTaskObject_def Let_def)
  qed
  have "searchDue (noDueTasksAry s) (RTOS_NO_PRIO_CLASSES cfg) = Some None"
    using F(5) by (simp add: searchDue_None_iff)
  then have "activeOk cfg s" using F(6) by (simp add: activeOk_def)
  with ok show ?thesis by (simp add: kernelInv_def)
qed

section \<open>All reachable states are consistent\<close>

lemma rtos_waitForEvent_inv:
  assumes inv: "kernelInv cfg s" and ni: "pActiveTask s \<noteq> pIdleTask cfg"
    and w: "rtos_waitForEvent cfg m a tmo s = Some s2"
  shows "kernelInv cfg s2"
proof -
  from w obtain s1 where w1: "waitForEvent cfg m a tmo s = Some s1"
    and p: "PUSH_RET_CODE_OF_CONTEXT_SWITCH s1 = Some s2"
    by (auto simp: rtos_waitForEvent_def split: bind_splits)
  from waitForEvent_inv[OF inv ni, of m a tmo] w1 have "kernelInv cfg s1" by auto
  from PUSH_RET_CODE_inv(1)[OF this p] show ?thesis .
qed

lemma ISR_SYSTEM_TIMER_TIC_inv:
  assumes inv: "kernelInv cfg s" and t: "ISR_SYSTEM_TIMER_TIC cfg s = Some s2"
  shows "kernelInv cfg s2"
proof -
  from t obtain b s1 where o: "onTimerTic cfg s = Some (b, s1)"
    and p: "if b then PUSH_RET_CODE_OF_CONTEXT_SWITCH s1 = Some s2 else s2 = s1"
    by (auto simp: ISR_SYSTEM_TIMER_TIC_def split: bind_splits if_splits)
  from onTimerTic_inv(1)[OF inv o] p PUSH_RET_CODE_inv(1)[of cfg s1 s2]
  show ?thesis by (cases b) simp_all
qed

lemma rtos_setEvent_inv:
  assumes inv: "kernelInv cfg s" and t: "rtos_setEvent cfg v s = Some s2"
  shows "kernelInv cfg s2"
proof -
  from t obtain b s1 where o: "setEvent cfg v s = Some (b, s1)"
    and p: "if b then PUSH_RET_CODE_OF_CONTEXT_SWITCH s1 = Some s2 else s2 = s1"
    by (auto simp: rtos_setEvent_def split: bind_splits if_splits)
  from setEvent_inv(1)[OF inv o] p PUSH_RET_CODE_inv(1)[of cfg s1 s2]
  show ?thesis by (cases b) simp_all
qed

lemma reachable_inv: "reachable cfg s \<Longrightarrow> kernelInv cfg s"
proof (induction rule: reachable.induct)
  case (r_init calls s)
  then show ?case by (rule initRTOS_inv)
next
  case (r_tic s s1)
  then show ?case by (auto intro: ISR_SYSTEM_TIMER_TIC_inv)
next
  case (r_setEvent s eventVec s1)
  then show ?case by (auto intro: rtos_setEvent_inv)
next
  case (r_waitForEvent s evMask all timeout s1)
  then show ?case by (auto intro: rtos_waitForEvent_inv)
next
  case (r_getTaskOverrunCounter s idxTask doReset r s1)
  then show ?case by (auto intro: getTaskOverrunCounter_inv)
qed

lemma dueList_empty_iff:
  "shape cfg s \<Longrightarrow> c < RTOS_NO_PRIO_CLASSES cfg \<Longrightarrow> dueList s c = [] \<longleftrightarrow> noDueTasksAry s ! c = 0"
  using dueList_length[of cfg s c] by auto

lemma active_selection:
  assumes sh: "shape cfg s" and act: "activeOk cfg s"
  shows "(\<forall>c < RTOS_NO_PRIO_CLASSES cfg. dueList s c = []) \<longrightarrow> pActiveTask s = pIdleTask cfg"
    and "\<forall>c < RTOS_NO_PRIO_CLASSES cfg.
           dueList s c \<noteq> [] \<and> (\<forall>c'. c < c' \<and> c' < RTOS_NO_PRIO_CLASSES cfg \<longrightarrow> dueList s c' = [])
           \<longrightarrow> pActiveTask s = dueList s c ! 0"
proof -
  note e = dueList_empty_iff[OF sh]
  from sh act show "(\<forall>c < RTOS_NO_PRIO_CLASSES cfg. dueList s c = []) \<longrightarrow> pActiveTask s = pIdleTask cfg"
  proof (cases rule: activeOk_cases)
    case idle
    then show ?thesis by simp
  next
    case (task c)
    with e[of c] show ?thesis by auto
  qed
  from sh act show "\<forall>c < RTOS_NO_PRIO_CLASSES cfg.
           dueList s c \<noteq> [] \<and> (\<forall>c'. c < c' \<and> c' < RTOS_NO_PRIO_CLASSES cfg \<longrightarrow> dueList s c' = [])
           \<longrightarrow> pActiveTask s = dueList s c ! 0"
  proof (cases rule: activeOk_cases)
    case idle
    with e show ?thesis by simp
  next
    case (task c0)
    show ?thesis
    proof (intro allI impI)
      fix c assume c: "c < RTOS_NO_PRIO_CLASSES cfg"
        and h: "dueList s c \<noteq> [] \<and> (\<forall>c'. c < c' \<and> c' < RTOS_NO_PRIO_CLASSES cfg \<longrightarrow> dueList s c' = [])"
      have "\<not> c < c0" using h task(1,2) e[of c0] by auto
      moreover have "\<not> c0 < c" using h task(3) c e[of c] by auto
      ultimately have "c = c0" by simp
      with task(5) show "pActiveTask s = dueList s c ! 0" by simp
    qed
  qed
qed

lemma active_placement:
  assumes inv: "kernelInv cfg s"
  shows "(\<exists>j \<le> RTOS_NO_TASKS cfg. pActiveTask s = TaskPtr j)
       \<and> pActiveTask s \<notin> set (suspList s)
       \<and> pIdleTask cfg \<notin> set (suspList s)
       \<and> (\<forall>c < RTOS_NO_PRIO_CLASSES cfg. pIdleTask cfg \<notin> set (dueList s c))
       \<and> (\<forall>c < RTOS_NO_PRIO_CLASSES cfg. \<forall>i < length (dueList s c).
             dueList s c ! i = pActiveTask s \<longrightarrow>
               i = 0 \<and> (\<forall>c'. c < c' \<and> c' < RTOS_NO_PRIO_CLASSES cfg \<longrightarrow> dueList s c' = []))"
proof -
  note ok = kernelInvD(1)[OF inv] and act = kernelInvD(2)[OF inv] and sh = kernelInvD(3)[OF inv]
  note e = dueList_empty_iff[OF sh]
  have idleS: "pIdleTask cfg \<notin> set (suspList s)"
    using idle_not_suspended[OF ok] by (simp add: pIdleTask_def)
  have idleD: "pIdleTask cfg \<notin> set (dueList s c)" if "c < RTOS_NO_PRIO_CLASSES cfg" for c
    using listsOkD(6)[OF ok that, of "pIdleTask cfg"] by (auto simp: pIdleTask_def)
  from sh act show ?thesis
  proof (cases rule: activeOk_cases)
    case idle
    have "dueList s c = []" if "c < RTOS_NO_PRIO_CLASSES cfg" for c
      using idle(2) e[OF that] that by simp
    with idle(1) idleS idleD show ?thesis by (auto simp: pIdleTask_def)
  next
    case (task c0)
    from active_in_due[OF ok task(1,2,5)] obtain j where
      j: "j < RTOS_NO_TASKS cfg" "pActiveTask s = TaskPtr j" "prioClass (taskAry s ! j) = c0"
      and nS: "pActiveTask s \<notin> set (suspList s)" by blast
    have slot: "i = 0 \<and> (\<forall>c'. c < c' \<and> c' < RTOS_NO_PRIO_CLASSES cfg \<longrightarrow> dueList s c' = [])"
      if c: "c < RTOS_NO_PRIO_CLASSES cfg" and i: "i < length (dueList s c)"
        and eq: "dueList s c ! i = pActiveTask s" for c i
    proof -
      from i eq have "pActiveTask s \<in> set (dueList s c)" by (metis nth_mem)
      from listsOkD(6)[OF ok c this] j have cc: "c = c0" by auto
      have "0 < length (dueList s c0)" using task(2) dueList_length[OF sh task(1)] by simp
      with i eq task(5) cc listsOkD(4)[OF ok task(1)] have "i = 0"
        by (simp add: nth_eq_iff_index_eq)
      moreover have "dueList s c' = []" if "c < c' \<and> c' < RTOS_NO_PRIO_CLASSES cfg" for c'
        using task(3) cc that e[of c'] by simp
      ultimately show ?thesis by blast
    qed
    have a: "\<exists>j \<le> RTOS_NO_TASKS cfg. pActiveTask s = TaskPtr j" using j by auto
    have b: "\<forall>c < RTOS_NO_PRIO_CLASSES cfg. pIdleTask cfg \<notin> set (dueList s c)"
      using idleD by blast
    have c: "\<forall>c < RTOS_NO_PRIO_CLASSES cfg. \<forall>i < length (dueList s c).
             dueList s c ! i = pActiveTask s \<longrightarrow>
               i = 0 \<and> (\<forall>c'. c < c' \<and> c' < RTOS_NO_PRIO_CLASSES cfg \<longrightarrow> dueList s c' = [])"
      using slot by blast
    from a nS idleS b c show ?thesis by blast
  qed
qed

section \<open>The posted events of the active task\<close>

text \<open>
  \<^verbatim>\<open>PUSH_RET_CODE_OF_CONTEXT_SWITCH\<close> clears the posted events of the task that becomes
  active, and events are posted to suspended tasks only.  So the active task of a
  reachable state has no posted events.
\<close>

lemma task_posted_zero: "postedEventVec t = 0 \<Longrightarrow> t\<lparr>postedEventVec := 0\<rparr> = t"
  by (cases t) simp

lemma PUSH_RET_CODE_cases:
  assumes "PUSH_RET_CODE_OF_CONTEXT_SWITCH s = Some s1"
  shows "\<exists>j. pActiveTask s = TaskPtr j \<and> j < length (taskAry s)
           \<and> s1 = s\<lparr>taskAry := (taskAry s)[j := (taskAry s ! j)\<lparr>postedEventVec := 0\<rparr>]\<rparr>"
proof -
  from assms obtain j where j: "pActiveTask s = TaskPtr j" "j < length (taskAry s)"
    and d: "(postedEventVec (taskAry s ! j) = 0 \<and> s1 = s)
          \<or> s1 = s\<lparr>taskAry := (taskAry s)[j := (taskAry s ! j)\<lparr>postedEventVec := 0\<rparr>]\<rparr>"
    by (auto simp: PUSH_RET_CODE_OF_CONTEXT_SWITCH_def getTask_Some_iff putTask_Some_iff
                   word_gt_0_ne
             split: bind_splits if_splits)
  from d have "s1 = s\<lparr>taskAry := (taskAry s)[j := (taskAry s ! j)\<lparr>postedEventVec := 0\<rparr>]\<rparr>"
  proof
    assume a: "postedEventVec (taskAry s ! j) = 0 \<and> s1 = s"
    then have "(taskAry s)[j := (taskAry s ! j)\<lparr>postedEventVec := 0\<rparr>] = taskAry s"
      by (simp add: task_posted_zero)
    with a show ?thesis by simp
  qed
  with j show ?thesis by blast
qed

lemma PUSH_RET_CODE_frame:
  assumes "PUSH_RET_CODE_OF_CONTEXT_SWITCH s = Some s1"
  shows "pActiveTask s1 = pActiveTask s" "suspList s1 = suspList s" "time s1 = time s"
    "dueList s1 = dueList s"
    "length (taskAry s1) = length (taskAry s)"
    "\<And>i. pActiveTask s \<noteq> TaskPtr i \<Longrightarrow> taskAry s1 ! i = taskAry s ! i"
    "\<And>j. pActiveTask s = TaskPtr j \<Longrightarrow> postedEventVec (taskAry s1 ! j) = 0"
  using PUSH_RET_CODE_cases[OF assms]
  by (auto simp: suspList_def dueList_def fun_eq_iff)

lemma roundRobin_posted:
  assumes "roundRobin s = Some (b, s1)"
  shows "map postedEventVec (taskAry s1) = map postedEventVec (taskAry s)"
  using assms
  by (rule roundRobin_cases) (auto simp: map_update list_update_same_conv)

lemma map_nth_eq:
  "map f xs = map f ys \<Longrightarrow> i < length xs \<Longrightarrow> f (xs ! i) = f (ys ! i)"
  by (metis length_map nth_map)

lemma onTimerTic_posted:
  assumes inv: "kernelInv cfg s" and t: "onTimerTic cfg s = Some (b, s1)"
    and n: "TaskPtr j \<notin> set (suspList s)" and j: "j < length (taskAry s)"
  shows "postedEventVec (taskAry s1 ! j) = postedEventVec (taskAry s ! j)"
proof -
  let ?s0 = "s\<lparr>time := time s + 1\<rparr>"
  from onTimerTic_cases[OF t] obtain s2 isNew s3 where
    f: "forSuspended (serveTimers cfg (time s + 1)) 0 ?s0 = Some s2"
    and r: "if RTOS_ROUND_ROBIN_MODE_SUPPORTED cfg then roundRobin s2 = Some (isNew, s3)
            else \<not> isNew \<and> s3 = s2"
    and ch: "checkForTaskActivation cfg isNew s3 = Some (b, s1)"
    by blast
  have a: "taskAry s2 ! j = taskAry s ! j"
    using forSuspended_unchanged[OF f, of j] n by (simp add: suspList_def)
  have l2: "length (taskAry s2) = length (taskAry s)" using forSuspended_frame[OF f] by simp
  have m3: "map postedEventVec (taskAry s3) = map postedEventVec (taskAry s2)"
    using r roundRobin_posted[of s2 isNew s3] by (simp split: if_splits)
  then have l3: "length (taskAry s3) = length (taskAry s2)" by (rule map_eq_imp_length_eq)
  note m1 = checkForTaskActivation_posted[OF ch]
  then have l1: "length (taskAry s1) = length (taskAry s3)" by (rule map_eq_imp_length_eq)
  from map_nth_eq[OF m1, of j] map_nth_eq[OF m3, of j] a j l1 l2 l3 show ?thesis by simp
qed

lemma setEvent_posted:
  assumes t: "setEvent cfg v s = Some (b, s1)"
    and n: "TaskPtr j \<notin> set (suspList s)" and j: "j < length (taskAry s)"
  shows "postedEventVec (taskAry s1 ! j) = postedEventVec (taskAry s ! j)"
proof -
  from t obtain s2 where
    f: "forSuspended (postEvent (v AND NOT (RTOS_EVT_ABSOLUTE_TIMER cfg
                                            OR RTOS_EVT_DELAY_TIMER cfg))) 0 s = Some s2"
    and c: "checkForTaskActivation cfg False s2 = Some (b, s1)"
    by (auto simp: setEvent_def Let_def split: bind_splits)
  have a: "taskAry s2 ! j = taskAry s ! j"
    using forSuspended_unchanged[OF f, of j] n by simp
  have l2: "length (taskAry s2) = length (taskAry s)" using forSuspended_frame[OF f] by simp
  note m1 = checkForTaskActivation_posted[OF c]
  then have l1: "length (taskAry s1) = length (taskAry s2)" by (rule map_eq_imp_length_eq)
  from map_nth_eq[OF m1, of j] a j l1 l2 show ?thesis by simp
qed

lemma initRTOS_active:
  assumes i: "rtos_initRTOS cfg calls = Some s" and a: "pActiveTask s = TaskPtr j"
  shows "postedEventVec (taskAry s ! j) = 0"
proof -
  from i obtain s1 idle where st: "applSetup cfg calls (staticData cfg) = Some s1"
    and s: "s = s1\<lparr>taskAry := map (initTaskObject cfg) (take (RTOS_NO_TASKS cfg) (taskAry s1))
                                @ [initIdleTaskObject cfg idle],
                    pSuspendedTaskAry := map TaskPtr [0..<RTOS_NO_TASKS cfg],
                    noSuspendedTasks := RTOS_NO_TASKS cfg,
                    noDueTasksAry := replicate (RTOS_NO_PRIO_CLASSES cfg) 0,
                    pActiveTask := pIdleTask cfg,
                    pSuspendedTask := pIdleTask cfg\<rparr>"
    by (auto simp: rtos_initRTOS_def split: bind_splits)
  from applSetup_frame[OF st] have "length (taskAry s1) = RTOS_NO_TASKS cfg + 1"
    by (simp add: staticData_def)
  with s a show ?thesis
    by (auto simp: pIdleTask_def nth_append initIdleTaskObject_def Let_def)
qed

lemma active_index:
  assumes inv: "kernelInv cfg s" and a: "pActiveTask s = TaskPtr j"
  shows "j < length (taskAry s)" "TaskPtr j \<notin> set (suspList s)"
proof -
  from active_placement[OF inv] a have "j \<le> RTOS_NO_TASKS cfg" "TaskPtr j \<notin> set (suspList s)"
    by auto
  with shapeD[OF kernelInvD(3)[OF inv]] show "j < length (taskAry s)"
    "TaskPtr j \<notin> set (suspList s)" by simp_all
qed

lemma active_posted_zero:
  "reachable cfg s \<Longrightarrow> pActiveTask s = TaskPtr j \<Longrightarrow> postedEventVec (taskAry s ! j) = 0"
proof (induction arbitrary: j rule: reachable.induct)
  case (r_init calls s)
  then show ?case by (auto intro: initRTOS_active)
next
  case (r_tic s s2)
  note inv = reachable_inv[OF r_tic(1)]
  from r_tic(2) obtain b s1 where o: "onTimerTic cfg s = Some (b, s1)"
    and p: "if b then PUSH_RET_CODE_OF_CONTEXT_SWITCH s1 = Some s2 else s2 = s1"
    by (auto simp: ISR_SYSTEM_TIMER_TIC_def split: bind_splits if_splits)
  show ?case
  proof (cases b)
    case True
    with p have pp: "PUSH_RET_CODE_OF_CONTEXT_SWITCH s1 = Some s2" by simp
    from PUSH_RET_CODE_frame(1,7)[OF pp] r_tic(4) show ?thesis by simp
  next
    case False
    with p onTimerTic_inv(2)[OF inv o] r_tic(4) have a: "pActiveTask s = TaskPtr j" "s2 = s1"
      by simp_all
    from onTimerTic_posted[OF inv o active_index(2,1)[OF inv a(1)]] r_tic(3)[OF a(1)] a(2)
    show ?thesis by simp
  qed
next
  case (r_setEvent s v s2)
  note inv = reachable_inv[OF r_setEvent(1)]
  from r_setEvent(2) obtain b s1 where o: "setEvent cfg v s = Some (b, s1)"
    and p: "if b then PUSH_RET_CODE_OF_CONTEXT_SWITCH s1 = Some s2 else s2 = s1"
    by (auto simp: rtos_setEvent_def split: bind_splits if_splits)
  show ?case
  proof (cases b)
    case True
    with p have pp: "PUSH_RET_CODE_OF_CONTEXT_SWITCH s1 = Some s2" by simp
    from PUSH_RET_CODE_frame(1,7)[OF pp] r_setEvent(4) show ?thesis by simp
  next
    case False
    with p setEvent_inv(2)[OF inv o] r_setEvent(4) have a: "pActiveTask s = TaskPtr j" "s2 = s1"
      by simp_all
    from setEvent_posted[OF o active_index(2,1)[OF inv a(1)]] r_setEvent(3)[OF a(1)] a(2)
    show ?thesis by simp
  qed
next
  case (r_waitForEvent s m a tmo s2)
  from r_waitForEvent(3) obtain s1 where
    p: "PUSH_RET_CODE_OF_CONTEXT_SWITCH s1 = Some s2"
    by (auto simp: rtos_waitForEvent_def split: bind_splits)
  from PUSH_RET_CODE_frame(1,7)[OF p] r_waitForEvent(5) show ?case by simp
next
  case (r_getTaskOverrunCounter s idx doReset r s1)
  from r_getTaskOverrunCounter(2) have
    d: "s1 = s \<or> s1 = s\<lparr>taskAry := (taskAry s)[idx := (taskAry s ! idx)\<lparr>cntOverrun := 0\<rparr>]\<rparr>"
    and i: "idx < length (taskAry s)"
    by (auto simp: rtos_getTaskOverrunCounter_def getTask_Some_iff putTask_Some_iff
             split: bind_splits if_splits)
  from d show ?case
  proof
    assume "s1 = s"
    with r_getTaskOverrunCounter(3,4) show ?thesis by simp
  next
    assume e: "s1 = s\<lparr>taskAry := (taskAry s)[idx := (taskAry s ! idx)\<lparr>cntOverrun := 0\<rparr>]\<rparr>"
    with r_getTaskOverrunCounter(4) have "pActiveTask s = TaskPtr j" by simp
    from r_getTaskOverrunCounter(3)[OF this] e i show ?thesis
      by (cases "j = idx") simp_all
  qed
qed

section \<open>A suspended task between two timer tics\<close>

text \<open>
  Without a timer tic only \<^verbatim>\<open>rtos_setEvent\<close> changes the posted events of a suspended task,
  and it posts no timer event.  The task stays suspended as long as the events set so far
  fail its release test.
\<close>

lemma word_all_posted:
  "(((A AND m AND NOT T) XOR m) AND NOT T = 0) \<longleftrightarrow> (A AND m AND NOT T = m AND NOT (T :: 16 word))"
  by (auto simp: bit_eq_iff bit_and_iff bit_xor_iff bit_not_iff)

lemma word_no_timer: "(A AND m AND NOT T) AND m AND T = (0 :: 16 word)"
  by (auto simp: bit_eq_iff bit_and_iff bit_not_iff)

lemma word_post_acc:
  "(A AND m AND NOT T) OR ((v AND NOT T) AND m) = (A OR v) AND m AND NOT (T :: 16 word)"
  by (auto simp: bit_eq_iff bit_and_iff bit_or_iff bit_not_iff)

lemma word_any_mono:
  "(A OR v) AND m AND NOT T = 0 \<Longrightarrow> A AND m AND NOT T = (0 :: 16 word)"
  by (auto simp: bit_eq_iff bit_and_iff bit_or_iff bit_not_iff)

lemma word_all_mono:
  "A AND m AND NOT T = m AND NOT T \<Longrightarrow> (A OR v) AND m AND NOT T = m AND NOT (T :: 16 word)"
  by (auto simp: bit_eq_iff bit_and_iff bit_or_iff bit_not_iff)

lemma releaseTest_events:
  assumes "eventMask t = m" and "waitForAnyEvent t = (\<not> all)"
    and "postedEventVec t = acc AND m AND NOT (TIMER_EVT_MASK cfg)"
  shows "releaseTest cfg t \<longleftrightarrow>
           (if all then acc AND m AND NOT (TIMER_EVT_MASK cfg) = m AND NOT (TIMER_EVT_MASK cfg)
            else acc AND m AND NOT (TIMER_EVT_MASK cfg) \<noteq> 0)"
  using assms by (simp add: releaseTest_def Let_def word_all_posted word_no_timer)

lemma suspended_index:
  assumes ok: "listsOk cfg s" and m: "TaskPtr j \<in> set (suspList s)"
  shows "j < RTOS_NO_TASKS cfg" "j < length (taskAry s)"
proof -
  from listsOkD(3)[OF ok m] show "j < RTOS_NO_TASKS cfg" by simp
  with shapeD[OF listsOkD(1)[OF ok]] show "j < length (taskAry s)" by simp
qed

lemma rtos_setEvent_suspended:
  assumes inv: "kernelInv cfg s" and t: "rtos_setEvent cfg v s = Some s2"
    and m: "TaskPtr j \<in> set (suspList s)"
    and nr: "\<not> releaseTest cfg (postEvent (v AND NOT (TIMER_EVT_MASK cfg)) (taskAry s ! j))"
  shows "TaskPtr j \<in> set (suspList s2)"
    and "taskAry s2 ! j = postEvent (v AND NOT (TIMER_EVT_MASK cfg)) (taskAry s ! j)"
    and "time s2 = time s"
proof -
  note ok = kernelInvD(1)[OF inv] and act = kernelInvD(2)[OF inv]
  note jl = suspended_index(2)[OF ok m]
  from t obtain b s1 where o: "setEvent cfg v s = Some (b, s1)"
    and p: "if b then PUSH_RET_CODE_OF_CONTEXT_SWITCH s1 = Some s2 else s2 = s1"
    by (auto simp: rtos_setEvent_def split: bind_splits if_splits)
  from o obtain sa where
    f: "forSuspended (postEvent (v AND NOT (TIMER_EVT_MASK cfg))) 0 s = Some sa"
    and c: "checkForTaskActivation cfg False sa = Some (b, s1)"
    by (auto simp: setEvent_def Let_def TIMER_EVT_MASK_def split: bind_splits)
  note fi = forSuspended_inv[OF ok f postEvent_prio]
  have ta: "taskAry sa ! j = postEvent (v AND NOT (TIMER_EVT_MASK cfg)) (taskAry s ! j)"
    using forSuspended_idem[OF f postEvent_idem jl] m by simp
  have la: "length (taskAry sa) = length (taskAry s)" using forSuspended_frame[OF f] by simp
  have tma: "time sa = time s" using arg_cong[OF fi(2), of time] by simp
  have nrel: "\<not> isReleased cfg sa (TaskPtr j)"
    using nr ta jl la by (simp add: isReleased_def getTask_def rd_def)
  have acta: "activeOk cfg sa" using fi(3) act by simp
  have h1: "\<exists>c<RTOS_NO_PRIO_CLASSES cfg. 0 < noDueTasksAry sa ! c"
    if "RTOS_ROUND_ROBIN_MODE_SUPPORTED cfg \<and> False"
    using that by simp
  note ci = checkForTaskActivation_inv[OF fi(1) c h1]
  have m1: "TaskPtr j \<in> set (suspList s1)" using ci(4) acta fi(4) m nrel by simp
  have t1: "taskAry s1 ! j = taskAry sa ! j" using ci(7)[of j] acta nrel by simp
  have tm1: "time s1 = time sa" using ci(8) acta by simp
  note inv1 = setEvent_inv(1)[OF inv o]
  have na: "pActiveTask s1 \<noteq> TaskPtr j" using active_placement[OF inv1] m1 by auto
  show "TaskPtr j \<in> set (suspList s2)"
    using p m1 PUSH_RET_CODE_frame(2)[of s1 s2] by (cases b) simp_all
  show "taskAry s2 ! j = postEvent (v AND NOT (TIMER_EVT_MASK cfg)) (taskAry s ! j)"
    using p t1 ta na PUSH_RET_CODE_frame(6)[of s1 s2 j] by (cases b) simp_all
  show "time s2 = time s"
    using p tm1 tma PUSH_RET_CODE_frame(3)[of s1 s2] by (cases b) simp_all
qed

lemma rtos_waitForEvent_caller:
  assumes inv: "kernelInv cfg s" and ni: "pActiveTask s \<noteq> pIdleTask cfg"
    and w: "rtos_waitForEvent cfg m a tmo s = Some s2" and k: "pActiveTask s = TaskPtr k"
  shows "TaskPtr k \<in> set (suspList s2)"
    and "taskAry s2 ! k = storeResumeCondition cfg (time s) (taskAry s ! k) m a tmo"
    and "time s2 = time s"
    and "suspList s2 = suspList s @ [TaskPtr k]"
    and "\<And>i. i \<noteq> k \<Longrightarrow> TaskPtr i \<in> set (suspList s) \<Longrightarrow> taskAry s2 ! i = taskAry s ! i"
proof -
  from w obtain s1 where w1: "waitForEvent cfg m a tmo s = Some s1"
    and p: "PUSH_RET_CODE_OF_CONTEXT_SWITCH s1 = Some s2"
    by (auto simp: rtos_waitForEvent_def split: bind_splits)
  from waitForEvent_inv[OF inv ni, of m a tmo] w1 k have
    kN: "k < RTOS_NO_TASKS cfg"
    and ta: "taskAry s1 = (taskAry s)[k := storeResumeCondition cfg (time s) (taskAry s ! k) m a tmo]"
    and su: "suspList s1 = suspList s @ [TaskPtr k]"
    and tm: "time s1 = time s" and inv1: "kernelInv cfg s1"
    by auto
  have kl: "k < length (taskAry s)" using kN shapeD[OF kernelInvD(3)[OF inv]] by simp
  note pf = PUSH_RET_CODE_frame[OF p]
  have na: "pActiveTask s1 \<noteq> TaskPtr i" if "TaskPtr i \<in> set (suspList s1)" for i
    using active_placement[OF inv1] that by auto
  show "TaskPtr k \<in> set (suspList s2)" using pf(2) su by simp
  show "taskAry s2 ! k = storeResumeCondition cfg (time s) (taskAry s ! k) m a tmo"
    using pf(6)[of k] na[of k] su ta kl by simp
  show "time s2 = time s" using pf(3) tm by simp
  show "suspList s2 = suspList s @ [TaskPtr k]" using pf(2) su by simp
  show "taskAry s2 ! i = taskAry s ! i" if "i \<noteq> k" "TaskPtr i \<in> set (suspList s)" for i
    using pf(6)[of i] na[of i] su ta that by simp
qed

lemma getTaskOverrunCounter_frame:
  assumes "rtos_getTaskOverrunCounter idx doReset s = Some (r, s1)"
  shows "suspList s1 = suspList s" "time s1 = time s"
    "postedEventVec (taskAry s1 ! j) = postedEventVec (taskAry s ! j)"
    "eventMask (taskAry s1 ! j) = eventMask (taskAry s ! j)"
    "waitForAnyEvent (taskAry s1 ! j) = waitForAnyEvent (taskAry s ! j)"
    "cntDelay (taskAry s1 ! j) = cntDelay (taskAry s ! j)"
proof -
  from assms have i: "idx < length (taskAry s)"
    and d: "s1 = s \<or> s1 = s\<lparr>taskAry := (taskAry s)[idx := (taskAry s ! idx)\<lparr>cntOverrun := 0\<rparr>]\<rparr>"
    by (auto simp: rtos_getTaskOverrunCounter_def getTask_Some_iff putTask_Some_iff
             split: bind_splits if_splits)
  from d show "suspList s1 = suspList s" "time s1 = time s"
    by (auto simp: suspList_def)
  have "taskAry s1 ! j = taskAry s ! j \<or> taskAry s1 ! j = (taskAry s ! j)\<lparr>cntOverrun := 0\<rparr>"
    using d i by (cases "j = idx") auto
  then show "postedEventVec (taskAry s1 ! j) = postedEventVec (taskAry s ! j)"
    "eventMask (taskAry s1 ! j) = eventMask (taskAry s ! j)"
    "waitForAnyEvent (taskAry s1 ! j) = waitForAnyEvent (taskAry s ! j)"
    "cntDelay (taskAry s1 ! j) = cntDelay (taskAry s ! j)"
    by auto
qed

lemma withoutTic_reachable:
  "withoutTic cfg s acc s2 \<Longrightarrow> reachable cfg s \<Longrightarrow> reachable cfg s2"
  by (induction rule: withoutTic.induct) (auto intro: reachable.intros)

lemma withoutTic_suspended:
  assumes u: "withoutTic cfg s1 acc s2" and r: "reachable cfg s1"
    and js: "TaskPtr j \<in> set (suspList s1)"
    and p0: "postedEventVec (taskAry s1 ! j) = 0"
    and em: "eventMask (taskAry s1 ! j) = m"
    and wa: "waitForAnyEvent (taskAry s1 ! j) = (\<not> all)"
  shows "(if all then acc AND m AND NOT (TIMER_EVT_MASK cfg) \<noteq> m AND NOT (TIMER_EVT_MASK cfg)
          else acc AND m AND NOT (TIMER_EVT_MASK cfg) = 0) \<longrightarrow>
         TaskPtr j \<in> set (suspList s2) \<and> time s2 = time s1
         \<and> postedEventVec (taskAry s2 ! j) = acc AND m AND NOT (TIMER_EVT_MASK cfg)
         \<and> eventMask (taskAry s2 ! j) = m
         \<and> waitForAnyEvent (taskAry s2 ! j) = (\<not> all)
         \<and> cntDelay (taskAry s2 ! j) = cntDelay (taskAry s1 ! j)"
  using u
proof (induction rule: withoutTic.induct)
  case u_start
  from js p0 em wa show ?case by simp
next
  case (u_setEvent acc sa v sb)
  let ?T = "TIMER_EVT_MASK cfg"
  show ?case
  proof
    assume st: "if all then (acc OR v) AND m AND NOT ?T \<noteq> m AND NOT ?T
                else (acc OR v) AND m AND NOT ?T = 0"
    have st0: "if all then acc AND m AND NOT ?T \<noteq> m AND NOT ?T
               else acc AND m AND NOT ?T = 0"
      using st word_any_mono[of acc v m ?T] word_all_mono[of acc m ?T v]
      by (auto split: if_splits)
    with u_setEvent.IH have ih: "TaskPtr j \<in> set (suspList sa)" "time sa = time s1"
      "postedEventVec (taskAry sa ! j) = acc AND m AND NOT ?T"
      "eventMask (taskAry sa ! j) = m" "waitForAnyEvent (taskAry sa ! j) = (\<not> all)"
      "cntDelay (taskAry sa ! j) = cntDelay (taskAry s1 ! j)" by simp_all
    note inva = reachable_inv[OF withoutTic_reachable[OF u_setEvent.hyps(1) r]]
    let ?t = "postEvent (v AND NOT ?T) (taskAry sa ! j)"
    have pt: "postedEventVec ?t = (acc OR v) AND m AND NOT ?T"
      "eventMask ?t = m" "waitForAnyEvent ?t = (\<not> all)"
      "cntDelay ?t = cntDelay (taskAry s1 ! j)"
      using ih by (simp_all add: postEvent_def word_post_acc)
    have nr: "\<not> releaseTest cfg ?t"
      using releaseTest_events[OF pt(2,3,1)] st by (auto split: if_splits)
    note se = rtos_setEvent_suspended[OF inva u_setEvent.hyps(2) ih(1) nr]
    from se pt ih(2) show "TaskPtr j \<in> set (suspList sb) \<and> time sb = time s1
         \<and> postedEventVec (taskAry sb ! j) = (acc OR v) AND m AND NOT ?T
         \<and> eventMask (taskAry sb ! j) = m
         \<and> waitForAnyEvent (taskAry sb ! j) = (\<not> all)
         \<and> cntDelay (taskAry sb ! j) = cntDelay (taskAry s1 ! j)" by simp
  qed
next
  case (u_waitForEvent acc sa evMask a timeout sb)
  let ?T = "TIMER_EVT_MASK cfg"
  show ?case
  proof
    assume st: "if all then acc AND m AND NOT ?T \<noteq> m AND NOT ?T
                else acc AND m AND NOT ?T = 0"
    with u_waitForEvent.IH have ih: "TaskPtr j \<in> set (suspList sa)" "time sa = time s1"
      "postedEventVec (taskAry sa ! j) = acc AND m AND NOT ?T"
      "eventMask (taskAry sa ! j) = m" "waitForAnyEvent (taskAry sa ! j) = (\<not> all)"
      "cntDelay (taskAry sa ! j) = cntDelay (taskAry s1 ! j)" by simp_all
    note inva = reachable_inv[OF withoutTic_reachable[OF u_waitForEvent.hyps(1) r]]
    from active_placement[OF inva] obtain k where k: "pActiveTask sa = TaskPtr k"
      and nk: "pActiveTask sa \<notin> set (suspList sa)" by blast
    from k nk ih(1) have jk: "j \<noteq> k" by auto
    note we = rtos_waitForEvent_caller[OF inva u_waitForEvent.hyps(2,3) k]
    from we(4) ih(1) have "TaskPtr j \<in> set (suspList sb)" by simp
    moreover from we(5)[OF jk ih(1)] have "taskAry sb ! j = taskAry sa ! j" .
    ultimately show "TaskPtr j \<in> set (suspList sb) \<and> time sb = time s1
         \<and> postedEventVec (taskAry sb ! j) = acc AND m AND NOT ?T
         \<and> eventMask (taskAry sb ! j) = m
         \<and> waitForAnyEvent (taskAry sb ! j) = (\<not> all)
         \<and> cntDelay (taskAry sb ! j) = cntDelay (taskAry s1 ! j)"
      using ih we(3) by simp
  qed
next
  case (u_getTaskOverrunCounter acc sa idx doReset rv sb)
  let ?T = "TIMER_EVT_MASK cfg"
  show ?case
  proof
    assume st: "if all then acc AND m AND NOT ?T \<noteq> m AND NOT ?T
                else acc AND m AND NOT ?T = 0"
    with u_getTaskOverrunCounter.IH have ih: "TaskPtr j \<in> set (suspList sa)" "time sa = time s1"
      "postedEventVec (taskAry sa ! j) = acc AND m AND NOT ?T"
      "eventMask (taskAry sa ! j) = m" "waitForAnyEvent (taskAry sa ! j) = (\<not> all)"
      "cntDelay (taskAry sa ! j) = cntDelay (taskAry s1 ! j)" by simp_all
    note g = getTaskOverrunCounter_frame[OF u_getTaskOverrunCounter.hyps(2)]
    from ih show "TaskPtr j \<in> set (suspList sb) \<and> time sb = time s1
         \<and> postedEventVec (taskAry sb ! j) = acc AND m AND NOT ?T
         \<and> eventMask (taskAry sb ! j) = m
         \<and> waitForAnyEvent (taskAry sb ! j) = (\<not> all)
         \<and> cntDelay (taskAry sb ! j) = cntDelay (taskAry s1 ! j)" by (simp add: g)
  qed
qed

lemma word_posted_no_timer: "p = A AND m AND NOT T \<Longrightarrow> p AND T = (0 :: 16 word)"
  by (auto simp: bit_eq_iff bit_and_iff bit_not_iff)

lemma waitForEvent_until_tic:
  assumes ab: "evMask AND RTOS_EVT_ABSOLUTE_TIMER cfg = 0"
    and r: "reachable cfg s" and k: "pActiveTask s = TaskPtr j"
    and ni: "pActiveTask s \<noteq> pIdleTask cfg"
    and w: "rtos_waitForEvent cfg evMask all timeout s = Some s1"
    and u: "withoutTic cfg s1 acc s2"
    and st: "if all then acc AND evMask AND NOT (TIMER_EVT_MASK cfg)
                           \<noteq> evMask AND NOT (TIMER_EVT_MASK cfg)
             else acc AND evMask AND NOT (TIMER_EVT_MASK cfg) = 0"
  shows "TaskPtr j \<in> set (suspList s1) \<and> TaskPtr j \<in> set (suspList s2)
       \<and> pActiveTask s2 \<noteq> TaskPtr j \<and> time s2 = time s
       \<and> cntDelay (taskAry s2 ! j) = (if timeout + 1 = 0 then timeout else timeout + 1)
       \<and> postedEventVec (taskAry s2 ! j) AND TIMER_EVT_MASK cfg = 0"
proof -
  note inv = reachable_inv[OF r]
  note wc = rtos_waitForEvent_caller[OF inv ni w k]
  have r1: "reachable cfg s1" by (rule r_waitForEvent[OF r ni w])
  have p0: "postedEventVec (taskAry s1 ! j) = 0"
    using wc(2) active_posted_zero[OF r k] by simp
  have em: "eventMask (taskAry s1 ! j) = evMask"
    and wa: "waitForAnyEvent (taskAry s1 ! j) = (\<not> all)"
    using wc(2) by simp_all
  have cd: "cntDelay (taskAry s1 ! j) = (if timeout + 1 = 0 then timeout else timeout + 1)"
    using wc(2) storeResumeCondition_delay[OF ab, of "time s" "taskAry s ! j" all timeout]
    by simp
  from withoutTic_suspended[OF u r1 wc(1) p0 em wa] st have
    a: "TaskPtr j \<in> set (suspList s2)" "time s2 = time s1"
      "postedEventVec (taskAry s2 ! j) = acc AND evMask AND NOT (TIMER_EVT_MASK cfg)"
      "cntDelay (taskAry s2 ! j) = cntDelay (taskAry s1 ! j)" by simp_all
  note inv2 = reachable_inv[OF withoutTic_reachable[OF u r1]]
  have na: "pActiveTask s2 \<noteq> TaskPtr j" using active_placement[OF inv2] a(1) by auto
  from wc(1) a na wc(3) cd word_posted_no_timer[OF a(3)] show ?thesis by simp
qed

section \<open>Example runs\<close>

text \<open>
  The example states are those that the kernel computes, and the kernel reaches them.
\<close>

lemma valid1: "validConfig cfg1" by (simp add: validConfig_def cfg1_def)
lemma validA: "validConfig cfgA" by (simp add: validConfig_def cfgA_def)

lemma init1: "rtos_initRTOS cfg1 calls1 = Some state1I" by code_simp
lemma tic1: "ISR_SYSTEM_TIMER_TIC cfg1 state1I = Some state1T" by code_simp
lemma wait1: "waitForEvent cfg1 0x4001 True 100 state1T = Some state1W" by code_simp
lemma initA: "rtos_initRTOS cfgA callsA = Some stateA0" by code_simp
lemma ticA1: "ISR_SYSTEM_TIMER_TIC cfgA stateA0 = Some stateA1" by code_simp
lemma onTicA2: "onTimerTic cfgA stateA1 = Some (True, stateA2)" by code_simp
lemma ticA2: "ISR_SYSTEM_TIMER_TIC cfgA stateA1 = Some stateA3" by code_simp

lemma reach1T: "reachable cfg1 state1T"
  by (rule r_tic[OF r_init[OF valid1 init1] tic1])

lemma reachA1: "reachable cfgA stateA1"
  by (rule r_tic[OF r_init[OF validA initA] ticA1])

lemma reachA3: "reachable cfgA stateA3"
  by (rule r_tic[OF reachA1 ticA2])

lemma validB: "validConfig cfgB" by (simp add: validConfig_def cfgB_def)
lemma initB: "rtos_initRTOS cfgB callsB = Some stateB0" by code_simp
lemma ticB1: "ISR_SYSTEM_TIMER_TIC cfgB stateB0 = Some stateB1" by code_simp
lemma onTicB2: "onTimerTic cfgB stateB1 = Some (True, stateB2)" by code_simp

lemma reachB1: "reachable cfgB stateB1"
  by (rule r_tic[OF r_init[OF validB initB] ticB1])

lemma waitD0: "rtos_waitForEvent cfg1 0x8001 False 0 state1T = Some stateD0" by code_simp
lemma setD1: "rtos_setEvent cfg1 1 stateD0 = Some stateD1" by code_simp
lemma waitD2: "rtos_waitForEvent cfg1 0x8000 True 0 state1T = Some stateD2" by code_simp
lemma setD3: "rtos_setEvent cfg1 1 stateD2 = Some stateD3" by code_simp
lemma waitD4: "rtos_waitForEvent cfg1 0x8003 True 0 state1T = Some stateD4" by code_simp
lemma setD5: "rtos_setEvent cfg1 1 stateD4 = Some stateD5" by code_simp
lemma waitD6: "rtos_waitForEvent cfg1 0x8000 False 0 state1T = Some stateD6" by code_simp
lemma setD6: "rtos_setEvent cfg1 1 stateD6 = Some stateD6" by code_simp


lemma scanA1: "checkForTaskActivation cfgA True stateA1
   = Some (False, stateA1\<lparr>pSuspendedTask := TaskPtr 0\<rparr>)" by code_simp
lemma setA1: "setEvent cfgA 1 stateA1 = Some (False, stateA1)" by code_simp


section \<open>The active task and the lists\<close>

text \<open>
  Claim C2, as stated, fails.  In the system with one task the first timer tic makes the
  task due and active, and the task is then the first entry of the list of due tasks of
  its class: \<^verbatim>\<open>checkForTaskActivation\<close> keeps the active task at the head of the due list
  of its class, and \<^verbatim>\<open>waitForEvent\<close> takes it from there when the task suspends itself.
\<close>

theorem active_task_in_due_list_counterexample:
  "rtos_initRTOS cfg1 calls1 = Some state1I
   \<and> ISR_SYSTEM_TIMER_TIC cfg1 state1I = Some state1T
   \<and> reachable cfg1 state1T
   \<and> noDueTasksAry state1T ! 0 = 1
   \<and> pDueTaskAryAry state1T ! 0 ! 0 = pActiveTask state1T
   \<and> pActiveTask state1T \<in> set (dueList state1T 0)"
  using init1 tic1 reach1T by (simp add: state1T_def dueList_def)

text \<open>
  Claim C2, as the code has it.  In every state that the kernel reaches from its
  initialization by timer tics and calls of \<^verbatim>\<open>rtos_setEvent\<close>, \<^verbatim>\<open>rtos_waitForEvent\<close> and
  \<^verbatim>\<open>rtos_getTaskOverrunCounter\<close>, exactly one task is active: the pointer to the active task
  refers to one of the task objects including the idle task.  The active task is never in
  the array of suspended tasks.  The idle task is in no list at all and is active if and
  only if all lists of due tasks are empty.  Otherwise the active task is the first entry
  of the list of due tasks of the highest non-empty class, and this is the only place
  where it is stored in the lists of due tasks.
\<close>

theorem active_task_placement:
  assumes "reachable cfg s"
  shows "(\<exists>j \<le> RTOS_NO_TASKS cfg. pActiveTask s = TaskPtr j)
       \<and> pActiveTask s \<notin> set (suspList s)
       \<and> pIdleTask cfg \<notin> set (suspList s)
       \<and> (\<forall>c < RTOS_NO_PRIO_CLASSES cfg. pIdleTask cfg \<notin> set (dueList s c))
       \<and> ((\<forall>c < RTOS_NO_PRIO_CLASSES cfg. dueList s c = []) \<longrightarrow> pActiveTask s = pIdleTask cfg)
       \<and> (\<forall>c < RTOS_NO_PRIO_CLASSES cfg.
             dueList s c \<noteq> []
             \<and> (\<forall>c'. c < c' \<and> c' < RTOS_NO_PRIO_CLASSES cfg \<longrightarrow> dueList s c' = [])
             \<longrightarrow> pActiveTask s = dueList s c ! 0)
       \<and> (\<forall>c < RTOS_NO_PRIO_CLASSES cfg. \<forall>i < length (dueList s c).
             dueList s c ! i = pActiveTask s \<longrightarrow>
               i = 0 \<and> (\<forall>c'. c < c' \<and> c' < RTOS_NO_PRIO_CLASSES cfg \<longrightarrow> dueList s c' = []))"
proof -
  note inv = reachable_inv[OF assms]
  from active_placement[OF inv] active_selection[OF kernelInvD(3,2)[OF inv]]
  show ?thesis by blast
qed

theorem active_task_placement_witness:
  "reachable cfg1 state1T
   \<and> pActiveTask state1T = TaskPtr 0 \<and> pActiveTask state1T \<noteq> pIdleTask cfg1
   \<and> pActiveTask state1T \<notin> set (suspList state1T)
   \<and> dueList state1T 0 \<noteq> [] \<and> pActiveTask state1T = dueList state1T 0 ! 0"
proof -
  have c: "0 < RTOS_NO_PRIO_CLASSES cfg1" "dueList state1T 0 \<noteq> []"
    "\<forall>c'. 0 < c' \<and> c' < RTOS_NO_PRIO_CLASSES cfg1 \<longrightarrow> dueList state1T c' = []"
    "pActiveTask state1T = TaskPtr 0" "pIdleTask cfg1 = TaskPtr 1"
    by (auto simp: cfg1_def state1T_def dueList_def pIdleTask_def)
  from active_task_placement[OF reach1T] c reach1T show ?thesis by auto
qed

text \<open>
  Claim C7.  In every reachable state, if a task is in the list of due tasks of a class
  and another task is in the list of a lower class, then the task of the lower class is
  not the active one: the active task is the first entry of the list of the highest
  non-empty class, which is not below the class of the first task.
\<close>

theorem priority_respect:
  assumes "reachable cfg s" and "cH < RTOS_NO_PRIO_CLASSES cfg" and "cL < cH"
    and "pH \<in> set (dueList s cH)" and "pL \<in> set (dueList s cL)"
  shows "pActiveTask s \<noteq> pL
       \<and> (\<exists>top. cH \<le> top \<and> top < RTOS_NO_PRIO_CLASSES cfg \<and> dueList s top \<noteq> []
              \<and> (\<forall>c'. top < c' \<and> c' < RTOS_NO_PRIO_CLASSES cfg \<longrightarrow> dueList s c' = [])
              \<and> pActiveTask s = dueList s top ! 0)"
proof -
  note inv = reachable_inv[OF assms(1)]
  note ok = kernelInvD(1)[OF inv] and act = kernelInvD(2)[OF inv] and sh = kernelInvD(3)[OF inv]
  note e = dueList_empty_iff[OF sh]
  have neH: "noDueTasksAry s ! cH \<noteq> 0" using assms(2,4) e[of cH] by auto
  have cL: "cL < RTOS_NO_PRIO_CLASSES cfg" using assms(2,3) by simp
  from sh act show ?thesis
  proof (cases rule: activeOk_cases)
    case idle
    with neH assms(2) show ?thesis by simp
  next
    case (task c0)
    have le: "cH \<le> c0" using task(3) neH assms(2) by (meson not_le_imp_less)
    from active_in_due[OF ok task(1,2,5)] obtain j where
      j: "pActiveTask s = TaskPtr j" "prioClass (taskAry s ! j) = c0" by blast
    from listsOkD(6)[OF ok cL assms(5)] obtain i where
      i: "pL = TaskPtr i" "prioClass (taskAry s ! i) = cL" by blast
    from i j le assms(3) have "pActiveTask s \<noteq> pL" by auto
    moreover have "dueList s c0 \<noteq> []" using task(1,2) e[of c0] by simp
    moreover have "\<forall>c'. c0 < c' \<and> c' < RTOS_NO_PRIO_CLASSES cfg \<longrightarrow> dueList s c' = []"
      using task(3) e by simp
    ultimately show ?thesis using le task(1,5) by blast
  qed
qed

theorem priority_respect_witness:
  "reachable cfgA stateA3 \<and> (1 :: nat) < RTOS_NO_PRIO_CLASSES cfgA \<and> (0 :: nat) < 1
   \<and> TaskPtr 2 \<in> set (dueList stateA3 1) \<and> TaskPtr 1 \<in> set (dueList stateA3 0)
   \<and> pActiveTask stateA3 \<noteq> TaskPtr 1 \<and> pActiveTask stateA3 = dueList stateA3 1 ! 0"
proof -
  have h: "(1 :: nat) < RTOS_NO_PRIO_CLASSES cfgA" "(0 :: nat) < 1"
    "TaskPtr 2 \<in> set (dueList stateA3 1)" "TaskPtr 1 \<in> set (dueList stateA3 0)"
    by (simp_all add: cfgA_def stateA3_def stateA2_def dueList_def)
  have a: "pActiveTask stateA3 = dueList stateA3 1 ! 0"
    by (simp add: stateA3_def stateA2_def dueList_def)
  from priority_respect[OF reachA3 h] h a reachA3 show ?thesis by blast
qed

section \<open>Suspending the active task\<close>

text \<open>
  Claim C4.  Called in a reachable state in which the active task is not the idle task,
  \<^verbatim>\<open>waitForEvent\<close> returns.  The active task was the first entry of the list of due tasks of
  its class and is removed from it, the other lists of due tasks stay as they are, the
  resume condition is stored in its task object, and the task is appended to the array of
  suspended tasks.  The new active task is the first entry of the list of due tasks of the
  highest non-empty class, or the idle task if all these lists are empty, and it is never
  the task that was active before.
\<close>

theorem waitForEvent_suspends_caller:
  assumes "reachable cfg s" and "pActiveTask s \<noteq> pIdleTask cfg"
  shows "\<exists>s1 j c. waitForEvent cfg evMask all timeout s = Some s1
     \<and> pActiveTask s = TaskPtr j \<and> j < RTOS_NO_TASKS cfg
     \<and> c < RTOS_NO_PRIO_CLASSES cfg \<and> prioClass (taskAry s ! j) = c
     \<and> dueList s c \<noteq> [] \<and> pActiveTask s = dueList s c ! 0
     \<and> dueList s1 c = tl (dueList s c)
     \<and> (\<forall>c' < RTOS_NO_PRIO_CLASSES cfg. c' \<noteq> c \<longrightarrow> dueList s1 c' = dueList s c')
     \<and> taskAry s1 = (taskAry s)[j := storeResumeCondition cfg (time s) (taskAry s ! j)
                                      evMask all timeout]
     \<and> suspList s1 = suspList s @ [pActiveTask s]
     \<and> pSuspendedTask s1 = pActiveTask s
     \<and> ((\<forall>c' < RTOS_NO_PRIO_CLASSES cfg. dueList s1 c' = [])
            \<longrightarrow> pActiveTask s1 = pIdleTask cfg)
     \<and> (\<forall>c' < RTOS_NO_PRIO_CLASSES cfg.
            dueList s1 c' \<noteq> []
            \<and> (\<forall>c''. c' < c'' \<and> c'' < RTOS_NO_PRIO_CLASSES cfg \<longrightarrow> dueList s1 c'' = [])
            \<longrightarrow> pActiveTask s1 = dueList s1 c' ! 0)
     \<and> pActiveTask s1 \<noteq> pActiveTask s"
proof -
  note inv = reachable_inv[OF assms(1)]
  from waitForEvent_inv[OF inv assms(2), of evMask all timeout] obtain s1 j c where
    w: "waitForEvent cfg evMask all timeout s = Some s1
     \<and> pActiveTask s = TaskPtr j \<and> j < RTOS_NO_TASKS cfg
     \<and> c < RTOS_NO_PRIO_CLASSES cfg \<and> prioClass (taskAry s ! j) = c
     \<and> dueList s c \<noteq> [] \<and> pActiveTask s = dueList s c ! 0
     \<and> dueList s1 c = tl (dueList s c)
     \<and> (\<forall>c' < RTOS_NO_PRIO_CLASSES cfg. c' \<noteq> c \<longrightarrow> dueList s1 c' = dueList s c')
     \<and> taskAry s1 = (taskAry s)[j := storeResumeCondition cfg (time s) (taskAry s ! j)
                                      evMask all timeout]
     \<and> suspList s1 = suspList s @ [pActiveTask s]
     \<and> pSuspendedTask s1 = pActiveTask s"
    and inv1: "kernelInv cfg s1" and ne: "pActiveTask s1 \<noteq> pActiveTask s"
    by blast
  from active_selection[OF kernelInvD(3,2)[OF inv1]] w ne show ?thesis by blast
qed

theorem waitForEvent_suspends_caller_witness:
  "reachable cfg1 state1T \<and> pActiveTask state1T \<noteq> pIdleTask cfg1
   \<and> waitForEvent cfg1 0x4001 True 100 state1T = Some state1W
   \<and> dueList state1T 0 = [TaskPtr 0] \<and> dueList state1W 0 = []
   \<and> suspList state1W = [TaskPtr 0] \<and> pActiveTask state1W = pIdleTask cfg1"
proof -
  have n: "pActiveTask state1T \<noteq> pIdleTask cfg1"
    by (simp add: state1T_def pIdleTask_def cfg1_def)
  from waitForEvent_suspends_caller[OF reach1T n, where evMask = "0x4001" and all = True
         and timeout = 100] wait1
  have "pActiveTask state1W \<noteq> pActiveTask state1T" by auto
  moreover have "dueList state1T 0 = [TaskPtr 0]" "dueList state1W 0 = []"
    "suspList state1W = [TaskPtr 0]" "pActiveTask state1W = pIdleTask cfg1"
    by (simp_all add: state1T_def state1W_def dueList_def suspList_def pIdleTask_def cfg1_def)
  ultimately show ?thesis using reach1T n wait1 by blast
qed

section \<open>The delay of a suspended task\<close>

text \<open>
  Claim C6, as stated, fails in its last part.  The single task of \<^term>\<open>cfg1\<close>
  suspends itself with a timeout of zero, the delay counter is loaded with one, and a
  call of \<^verbatim>\<open>rtos_setEvent\<close> with event 0 makes the task active again before any timer tic:
  the system time has not changed.  This happens when the task waits for event 0 or the
  delay timer, and also when it waits for all events of a mask that holds the delay
  timer only.
\<close>

theorem delay_zero_released_before_tic_counterexample:
  "reachable cfg1 state1T \<and> pActiveTask state1T = TaskPtr 0
   \<and> pActiveTask state1T \<noteq> pIdleTask cfg1
   \<and> (0x8001 :: 16 word) AND RTOS_EVT_ABSOLUTE_TIMER cfg1 = 0
   \<and> rtos_waitForEvent cfg1 0x8001 False 0 state1T = Some stateD0
   \<and> cntDelay (taskAry stateD0 ! 0) = 1 \<and> suspList stateD0 = [TaskPtr 0]
   \<and> rtos_setEvent cfg1 1 stateD0 = Some stateD1
   \<and> time stateD1 = time state1T \<and> suspList stateD1 = [] \<and> pActiveTask stateD1 = TaskPtr 0
   \<and> (0x8000 :: 16 word) AND RTOS_EVT_ABSOLUTE_TIMER cfg1 = 0
   \<and> rtos_waitForEvent cfg1 0x8000 True 0 state1T = Some stateD2
   \<and> cntDelay (taskAry stateD2 ! 0) = 1 \<and> suspList stateD2 = [TaskPtr 0]
   \<and> rtos_setEvent cfg1 1 stateD2 = Some stateD3
   \<and> time stateD3 = time state1T \<and> suspList stateD3 = [] \<and> pActiveTask stateD3 = TaskPtr 0"
  using reach1T waitD0 setD1 waitD2 setD3
  by (simp add: cfg1_def state1T_def stateD0_def stateD1_def stateD2_def stateD3_def
        suspList_def pIdleTask_def)

text \<open>
  Claim C6, as the code has it.  If the event mask does not contain the absolute timer
  event, then \<^verbatim>\<open>storeResumeCondition\<close> loads the delay counter with the timeout plus one, or
  with the timeout itself if the increment wraps to zero.  The counter is never zero
  afterwards.  With a timeout of zero it is one, and the first timer tic that serves the
  task posts the delay event.  A task that calls \<^verbatim>\<open>rtos_waitForEvent\<close> with such a mask in a
  reachable state is suspended, and it stays suspended, with its delay counter as loaded
  and without a timer event posted, in every state that the kernel reaches without a
  timer tic, as long as the events set in between do not meet its release condition:
  if it waits for any event, none of the events of its mask other than the timer events
  has been set; if it waits for all events, not all of them have been set.
\<close>

theorem delay_timer_suspension:
  assumes "evMask AND RTOS_EVT_ABSOLUTE_TIMER cfg = 0"
  shows "cntDelay (storeResumeCondition cfg now pT evMask all timeout) =
           (if timeout + 1 = 0 then timeout else timeout + 1)
       \<and> cntDelay (storeResumeCondition cfg now pT evMask all timeout) \<noteq> 0
       \<and> timeDueAt (storeResumeCondition cfg now pT evMask all timeout) = timeDueAt pT
       \<and> cntOverrun (storeResumeCondition cfg now pT evMask all timeout) = cntOverrun pT
       \<and> (timeout = 0 \<longrightarrow>
            cntDelay (storeResumeCondition cfg now pT evMask all timeout) = 1
          \<and> cntDelay (serveTimers cfg tic
                        (storeResumeCondition cfg now pT evMask all timeout)) = 0
          \<and> postedEventVec (serveTimers cfg tic
                              (storeResumeCondition cfg now pT evMask all timeout))
              AND (RTOS_EVT_DELAY_TIMER cfg AND evMask) = RTOS_EVT_DELAY_TIMER cfg AND evMask)
       \<and> (reachable cfg s \<and> pActiveTask s = TaskPtr j \<and> pActiveTask s \<noteq> pIdleTask cfg
            \<and> rtos_waitForEvent cfg evMask all timeout s = Some s1
            \<and> withoutTic cfg s1 acc s2
            \<and> (if all then acc AND evMask AND NOT (TIMER_EVT_MASK cfg)
                             \<noteq> evMask AND NOT (TIMER_EVT_MASK cfg)
                else acc AND evMask AND NOT (TIMER_EVT_MASK cfg) = 0)
          \<longrightarrow> TaskPtr j \<in> set (suspList s1) \<and> TaskPtr j \<in> set (suspList s2)
              \<and> pActiveTask s2 \<noteq> TaskPtr j \<and> time s2 = time s
              \<and> cntDelay (taskAry s2 ! j) = (if timeout + 1 = 0 then timeout else timeout + 1)
              \<and> postedEventVec (taskAry s2 ! j) AND TIMER_EVT_MASK cfg = 0)"
proof -
  note a = storeResumeCondition_delay[OF assms, of now pT all timeout tic]
  have b: "TaskPtr j \<in> set (suspList s1) \<and> TaskPtr j \<in> set (suspList s2)
              \<and> pActiveTask s2 \<noteq> TaskPtr j \<and> time s2 = time s
              \<and> cntDelay (taskAry s2 ! j) = (if timeout + 1 = 0 then timeout else timeout + 1)
              \<and> postedEventVec (taskAry s2 ! j) AND TIMER_EVT_MASK cfg = 0"
    if "reachable cfg s \<and> pActiveTask s = TaskPtr j \<and> pActiveTask s \<noteq> pIdleTask cfg
            \<and> rtos_waitForEvent cfg evMask all timeout s = Some s1
            \<and> withoutTic cfg s1 acc s2
            \<and> (if all then acc AND evMask AND NOT (TIMER_EVT_MASK cfg)
                             \<noteq> evMask AND NOT (TIMER_EVT_MASK cfg)
                else acc AND evMask AND NOT (TIMER_EVT_MASK cfg) = 0)"
    using waitForEvent_until_tic[OF assms, of s j all timeout s1 acc s2] that by blast
  from a b show ?thesis by blast
qed

theorem delay_timer_suspension_witness:
  "(0x8000 :: 16 word) AND RTOS_EVT_ABSOLUTE_TIMER cfg1 = 0
   \<and> reachable cfg1 state1T \<and> pActiveTask state1T = TaskPtr 0
   \<and> pActiveTask state1T \<noteq> pIdleTask cfg1
   \<and> rtos_waitForEvent cfg1 0x8000 False 0 state1T = Some stateD6
   \<and> rtos_setEvent cfg1 1 stateD6 = Some stateD6
   \<and> withoutTic cfg1 stateD6 (0 OR 1) stateD6
   \<and> (0 OR 1) AND (0x8000 :: 16 word) AND NOT (TIMER_EVT_MASK cfg1) = 0
   \<and> TaskPtr 0 \<in> set (suspList stateD6) \<and> pActiveTask stateD6 \<noteq> TaskPtr 0
   \<and> time stateD6 = time state1T \<and> cntDelay (taskAry stateD6 ! 0) = 1
   \<and> (0x8003 :: 16 word) AND RTOS_EVT_ABSOLUTE_TIMER cfg1 = 0
   \<and> rtos_waitForEvent cfg1 0x8003 True 0 state1T = Some stateD4
   \<and> rtos_setEvent cfg1 1 stateD4 = Some stateD5
   \<and> withoutTic cfg1 stateD4 (0 OR 1) stateD5
   \<and> (0 OR 1) AND (0x8003 :: 16 word) AND NOT (TIMER_EVT_MASK cfg1)
        \<noteq> 0x8003 AND NOT (TIMER_EVT_MASK cfg1)
   \<and> TaskPtr 0 \<in> set (suspList stateD5) \<and> pActiveTask stateD5 \<noteq> TaskPtr 0
   \<and> time stateD5 = time state1T \<and> cntDelay (taskAry stateD5 ! 0) = 1
   \<and> (0x8001 :: 16 word) AND RTOS_EVT_ABSOLUTE_TIMER cfg1 = 0
   \<and> cntDelay (storeResumeCondition cfg1 (200 :: 8 word) taskX 0x8001 True 0) = 1
   \<and> cntDelay (storeResumeCondition cfg1 (200 :: 8 word) taskX 0x8001 True 255) = 255
   \<and> postedEventVec (serveTimers cfg1 201
                       (storeResumeCondition cfg1 (200 :: 8 word) taskX 0x8001 True 0))
       AND (RTOS_EVT_DELAY_TIMER cfg1 AND 0x8001) = RTOS_EVT_DELAY_TIMER cfg1 AND 0x8001"
proof -
  have h1: "(0x8001 :: 16 word) AND RTOS_EVT_ABSOLUTE_TIMER cfg1 = 0"
    by (simp add: cfg1_def)
  from delay_timer_suspension [OF h1, of 200 taskX True 0 201]
       delay_timer_suspension [OF h1, of 200 taskX True 255 201]
  have r1: "cntDelay (storeResumeCondition cfg1 (200 :: 8 word) taskX 0x8001 True 0) = 1
   \<and> cntDelay (storeResumeCondition cfg1 (200 :: 8 word) taskX 0x8001 True 255) = 255
   \<and> postedEventVec (serveTimers cfg1 201
                       (storeResumeCondition cfg1 (200 :: 8 word) taskX 0x8001 True 0))
       AND (RTOS_EVT_DELAY_TIMER cfg1 AND 0x8001) = RTOS_EVT_DELAY_TIMER cfg1 AND 0x8001"
    by simp
  have h6: "(0x8000 :: 16 word) AND RTOS_EVT_ABSOLUTE_TIMER cfg1 = 0"
    and h4: "(0x8003 :: 16 word) AND RTOS_EVT_ABSOLUTE_TIMER cfg1 = 0"
    by (simp_all add: cfg1_def)
  have a: "pActiveTask state1T = TaskPtr 0" "pActiveTask state1T \<noteq> pIdleTask cfg1"
    by (simp_all add: state1T_def pIdleTask_def cfg1_def)
  have u6: "withoutTic cfg1 stateD6 (0 OR 1) stateD6"
    by (rule u_setEvent[OF u_start setD6])
  have u4: "withoutTic cfg1 stateD4 (0 OR 1) stateD5"
    by (rule u_setEvent[OF u_start setD5])
  have c6: "(0 OR 1) AND (0x8000 :: 16 word) AND NOT (TIMER_EVT_MASK cfg1) = 0"
    and c4: "(0 OR 1) AND (0x8003 :: 16 word) AND NOT (TIMER_EVT_MASK cfg1)
        \<noteq> 0x8003 AND NOT (TIMER_EVT_MASK cfg1)"
    by (simp_all add: TIMER_EVT_MASK_def cfg1_def)
  from delay_timer_suspension[OF h6, of _ _ False 0 _ state1T 0 stateD6 "0 OR 1" stateD6]
    reach1T a waitD6 u6 c6
  have r6: "TaskPtr 0 \<in> set (suspList stateD6) \<and> pActiveTask stateD6 \<noteq> TaskPtr 0
    \<and> time stateD6 = time state1T \<and> cntDelay (taskAry stateD6 ! 0) = 1" by simp
  from delay_timer_suspension[OF h4, of _ _ True 0 _ state1T 0 stateD4 "0 OR 1" stateD5]
    reach1T a waitD4 u4 c4
  have r4: "TaskPtr 0 \<in> set (suspList stateD5) \<and> pActiveTask stateD5 \<noteq> TaskPtr 0
    \<and> time stateD5 = time state1T \<and> cntDelay (taskAry stateD5 ! 0) = 1" by simp
  from h6 h4 reach1T a waitD6 setD6 u6 c6 r6 waitD4 setD5 u4 c4 r4 h1 r1 show ?thesis by blast
qed

section \<open>Round robin at a timer tic\<close>

lemma onTimerTic_round_robin:
  assumes inv: "kernelInv cfg s" and rr: "RTOS_ROUND_ROBIN_MODE_SUPPORTED cfg"
    and aj: "pActiveTask s = TaskPtr j" and one: "cntRoundRobin (taskAry s ! j) = 1"
    and pc: "prioClass (taskAry s ! j) = c" and more: "1 < noDueTasksAry s ! c"
    and t: "onTimerTic cfg s = Some (b, s1)"
  shows "c < RTOS_NO_PRIO_CLASSES cfg \<and> dueList s c ! 0 = TaskPtr j
    \<and> cntRoundRobin (taskAry s1 ! j) = timeRoundRobin (taskAry s ! j)
    \<and> dueList s1 c = tl (dueList s c) @ [TaskPtr j]
          @ filter (\<lambda>p. releasedAtTic cfg s p \<and> prioOf s p = c) (suspList s)
    \<and> (\<forall>c' < RTOS_NO_PRIO_CLASSES cfg. c' \<noteq> c \<longrightarrow>
          dueList s1 c' = dueList s c'
            @ filter (\<lambda>p. releasedAtTic cfg s p \<and> prioOf s p = c') (suspList s))
    \<and> suspList s1 = filter (\<lambda>p. \<not> releasedAtTic cfg s p) (suspList s)
    \<and> ((\<forall>c'. c < c' \<and> c' < RTOS_NO_PRIO_CLASSES cfg \<longrightarrow> dueList s1 c' = [])
          \<longrightarrow> pActiveTask s1 = dueList s c ! 1 \<and> b)
    \<and> (\<forall>c' < RTOS_NO_PRIO_CLASSES cfg.
          dueList s1 c' \<noteq> []
          \<and> (\<forall>c''. c' < c'' \<and> c'' < RTOS_NO_PRIO_CLASSES cfg \<longrightarrow> dueList s1 c'' = [])
          \<longrightarrow> pActiveTask s1 = dueList s1 c' ! 0)"
proof -
  note ok = kernelInvD(1)[OF inv] and act = kernelInvD(2)[OF inv] and sh = kernelInvD(3)[OF inv]
  note shD = shapeD[OF sh]
  let ?s0 = "s\<lparr>time := time s + 1\<rparr>"
  let ?L = "dueList s c"
  from onTimerTic_cases[OF t] rr obtain s2 isNew s3 where
    f: "forSuspended (serveTimers cfg (time s + 1)) 0 ?s0 = Some s2"
    and r: "roundRobin s2 = Some (isNew, s3)"
    and ch: "checkForTaskActivation cfg isNew s3 = Some (b, s1)"
    by auto
  have jc: "j < RTOS_NO_TASKS cfg \<and> c < RTOS_NO_PRIO_CLASSES cfg \<and> pActiveTask s = ?L ! 0
        \<and> TaskPtr j \<notin> set (suspList s)"
    using sh act
  proof (cases rule: activeOk_cases)
    case idle
    with aj have "j = RTOS_NO_TASKS cfg" by (simp add: pIdleTask_def)
    with listsOkD(7)[OF ok rr] one show ?thesis by simp
  next
    case (task c0)
    obtain i where i: "i < RTOS_NO_TASKS cfg" "pActiveTask s = TaskPtr i"
      "prioClass (taskAry s ! i) = c0" "pActiveTask s \<notin> set (suspList s)"
      by (rule active_in_due[OF ok task(1,2,5)])
    from i(2) aj have "i = j" by simp
    with i pc aj task(1,5) show ?thesis by simp
  qed
  have ok0: "listsOk cfg ?s0" "activeOk cfg ?s0" using ok act by simp_all
  note fi = forSuspended_inv[OF ok0(1) f serveTimers_prio]
  have s2: "pActiveTask s2 = TaskPtr j" "noDueTasksAry s2 = noDueTasksAry s"
    using arg_cong[OF fi(2), of pActiveTask] arg_cong[OF fi(2), of noDueTasksAry] aj by simp_all
  have su2: "suspList s2 = suspList s" "dueList s2 = dueList s"
    using fi(4,5) by (simp_all add: suspList_def dueList_def fun_eq_iff)
  have t2: "taskAry s2 ! j = taskAry s ! j" using fi(6)[of j] jc by (simp add: suspList_def)
  have act2: "activeOk cfg s2" using fi(3) ok0(2) by simp
  note ri = roundRobin_inv[OF fi(1) act2 rr r]
  from ri s2 t2 one pc more have isNew: "isNew"
    and c3: "cntRoundRobin (taskAry s3 ! j) = timeRoundRobin (taskAry s ! j)" by auto
  from ri isNew obtain c1 j1 where
    "pActiveTask s2 = TaskPtr j1" "prioClass (taskAry s2 ! j1) = c1"
    "dueList s3 c1 = tl (dueList s2 c1) @ [pActiveTask s2]"
    "\<forall>c' < RTOS_NO_PRIO_CLASSES cfg. c' \<noteq> c1 \<longrightarrow> dueList s3 c' = dueList s2 c'" by blast
  with s2 t2 pc su2 have d3: "dueList s3 c = tl ?L @ [TaskPtr j]"
    and d3o: "\<forall>c' < RTOS_NO_PRIO_CLASSES cfg. c' \<noteq> c \<longrightarrow> dueList s3 c' = dueList s c'"
    by simp_all
  from ri have ok3: "listsOk cfg s3" and su3: "suspList s3 = suspList s2"
    and a3: "pActiveTask s3 = pActiveTask s2" and n3: "noDueTasksAry s3 = noDueTasksAry s2"
    and l3: "length (taskAry s3) = length (taskAry s2)"
    and u3: "\<forall>i. TaskPtr i \<noteq> pActiveTask s2 \<longrightarrow> taskAry s3 ! i = taskAry s2 ! i"
    by blast+
  have h1: "\<exists>c<RTOS_NO_PRIO_CLASSES cfg. 0 < noDueTasksAry s3 ! c"
    using jc more n3 s2 by (intro exI[of _ c]) simp
  have h2: "activeOk cfg s3" if "\<not> (RTOS_ROUND_ROBIN_MODE_SUPPORTED cfg \<and> isNew)"
    using that rr isNew by simp
  note ci = checkForTaskActivation_inv[OF ok3 ch h1 h2]
  have t1: "taskAry s1 ! j = taskAry s3 ! j"
    using ci(7)[of j] jc su3 su2 by simp
  have l2: "length (taskAry s2) = length (taskAry s)"
    using forSuspended_frame[OF f] by simp
  have rel: "isReleased cfg s3 p = releasedAtTic cfg s p \<and> prioOf s3 p = prioOf s p"
    if p: "p \<in> set (suspList s)" for p
  proof -
    from listsOkD(3)[OF ok p] obtain i where i: "i < RTOS_NO_TASKS cfg" "p = TaskPtr i" by blast
    then have il: "i < length (taskAry s)" using shD by simp
    have ne: "TaskPtr i \<noteq> pActiveTask s2" using s2 jc p i by auto
    have "taskAry s2 ! i = serveTimers cfg (time s + 1) (taskAry s ! i)"
      using forSuspended_distinct[OF f, of i] listsOkD(2)[OF ok] il p i
      by (simp add: suspList_def)
    with u3 ne have "taskAry s3 ! i = serveTimers cfg (time s + 1) (taskAry s ! i)" by simp
    with i il l2 l3 show ?thesis
      by (simp add: isReleased_def releasedAtTic_def prioOf_def getTask_def rd_def)
  qed
  have fl: "filter (\<lambda>p. isReleased cfg s3 p \<and> prioOf s3 p = c') (suspList s)
          = filter (\<lambda>p. releasedAtTic cfg s p \<and> prioOf s p = c') (suspList s)" for c'
    by (rule filter_cong[OF refl]) (simp add: rel)
  have fn: "filter (\<lambda>p. \<not> isReleased cfg s3 p) (suspList s)
          = filter (\<lambda>p. \<not> releasedAtTic cfg s p) (suspList s)"
    by (rule filter_cong[OF refl]) (simp add: rel)
  have d1: "dueList s1 c = tl ?L @ [TaskPtr j]
               @ filter (\<lambda>p. releasedAtTic cfg s p \<and> prioOf s p = c) (suspList s)"
    using ci(5)[of c] jc d3 su3 su2 fl[of c] by simp
  have d1o: "dueList s1 c' = dueList s c'
               @ filter (\<lambda>p. releasedAtTic cfg s p \<and> prioOf s p = c') (suspList s)"
    if "c' < RTOS_NO_PRIO_CLASSES cfg" "c' \<noteq> c" for c'
    using ci(5)[of c'] d3o that su3 su2 fl[of c'] by simp
  have sl: "suspList s1 = filter (\<lambda>p. \<not> releasedAtTic cfg s p) (suspList s)"
    using ci(4) su3 su2 fn by simp
  note sel = active_selection[OF listsOkD(1)[OF ci(1)] ci(2)]
  have len: "length ?L = noDueTasksAry s ! c" using dueList_length[OF sh] jc by simp
  have Ld: "distinct ?L" using listsOkD(4)[OF ok] jc by simp
  have first: "pActiveTask s1 = ?L ! 1 \<and> b"
    if "\<forall>c'. c < c' \<and> c' < RTOS_NO_PRIO_CLASSES cfg \<longrightarrow> dueList s1 c' = []"
  proof -
    from d1 have "dueList s1 c \<noteq> []" by simp
    with sel(2) that jc have "pActiveTask s1 = dueList s1 c ! 0" by blast
    also have "\<dots> = tl ?L ! 0" using d1 len more by (simp add: nth_append)
    also have "\<dots> = ?L ! 1" using len more by (simp add: nth_tl)
    finally have a1: "pActiveTask s1 = ?L ! 1" .
    have "?L ! 1 \<noteq> ?L ! 0" using Ld len more by (simp add: nth_eq_iff_index_eq)
    with a1 jc aj a3 s2 ci(3) show ?thesis by simp
  qed
  have A: "c < RTOS_NO_PRIO_CLASSES cfg \<and> dueList s c ! 0 = TaskPtr j" using jc aj by simp
  have B: "cntRoundRobin (taskAry s1 ! j) = timeRoundRobin (taskAry s ! j)" using c3 t1 by simp
  from A B d1 d1o sl first sel(2) show ?thesis by blast
qed

text \<open>
  Claim C9, as stated, fails.  In the system with round robin the second timer tic ends
  the time slice of the active task 0, whose class has two due tasks, and it releases
  task 2 of the higher class.  The list of class 0 is rotated, but the new active task is
  task 2 and not task 1, the former second entry of the list.
\<close>

theorem round_robin_next_is_second_counterexample:
  "reachable cfgA stateA1 \<and> RTOS_ROUND_ROBIN_MODE_SUPPORTED cfgA
   \<and> pActiveTask stateA1 = TaskPtr 0 \<and> cntRoundRobin (taskAry stateA1 ! 0) = 1
   \<and> prioClass (taskAry stateA1 ! 0) = 0
   \<and> dueList stateA1 0 = [TaskPtr 0, TaskPtr 1]
   \<and> onTimerTic cfgA stateA1 = Some (True, stateA2)
   \<and> dueList stateA2 0 = [TaskPtr 1, TaskPtr 0]
   \<and> pActiveTask stateA2 = TaskPtr 2
   \<and> pActiveTask stateA2 \<noteq> dueList stateA1 0 ! 1"
  using reachA1 onTicA2
  by (simp add: cfgA_def stateA1_def stateA2_def dueList_def zeroTask_def)

text \<open>
  Claim C9, as the code has it.  Let round robin be compiled, the round robin counter of
  the active task be one before a timer tic, so that the tic counts it down to zero, and
  the list of due tasks of its class hold more than one entry.  Then the active task is
  the first entry of this list, the tic reloads its counter from its time slice, and the
  list after the tic is the old list without its first entry, followed by the active
  task, followed by the tasks of this class that the tic releases: the suspended tasks
  that pass the release test once the tic has served their timers, in the order of the
  array of suspended tasks.  The list of every other class gets the released tasks of
  that class appended, and the released tasks leave the array of suspended tasks.  If no
  task of a higher class is due after the tic, the new active task is the former second
  entry of the list and \<^verbatim>\<open>onTimerTic\<close> reports a change of the active task.  In any case
  the new active task is the first entry of the list of the highest non-empty class.
\<close>

theorem round_robin_rotation:
  assumes "reachable cfg s" and "RTOS_ROUND_ROBIN_MODE_SUPPORTED cfg"
    and "pActiveTask s = TaskPtr j" and "cntRoundRobin (taskAry s ! j) = 1"
    and "prioClass (taskAry s ! j) = c" and "1 < noDueTasksAry s ! c"
    and "onTimerTic cfg s = Some (b, s1)"
  shows "c < RTOS_NO_PRIO_CLASSES cfg \<and> dueList s c ! 0 = TaskPtr j
    \<and> cntRoundRobin (taskAry s1 ! j) = timeRoundRobin (taskAry s ! j)
    \<and> dueList s1 c = tl (dueList s c) @ [TaskPtr j]
          @ filter (\<lambda>p. releasedAtTic cfg s p \<and> prioOf s p = c) (suspList s)
    \<and> (\<forall>c' < RTOS_NO_PRIO_CLASSES cfg. c' \<noteq> c \<longrightarrow>
          dueList s1 c' = dueList s c'
            @ filter (\<lambda>p. releasedAtTic cfg s p \<and> prioOf s p = c') (suspList s))
    \<and> suspList s1 = filter (\<lambda>p. \<not> releasedAtTic cfg s p) (suspList s)
    \<and> ((\<forall>c'. c < c' \<and> c' < RTOS_NO_PRIO_CLASSES cfg \<longrightarrow> dueList s1 c' = [])
          \<longrightarrow> pActiveTask s1 = dueList s c ! 1 \<and> b)
    \<and> (\<forall>c' < RTOS_NO_PRIO_CLASSES cfg.
          dueList s1 c' \<noteq> []
          \<and> (\<forall>c''. c' < c'' \<and> c'' < RTOS_NO_PRIO_CLASSES cfg \<longrightarrow> dueList s1 c'' = [])
          \<longrightarrow> pActiveTask s1 = dueList s1 c' ! 0)"
  using onTimerTic_round_robin[OF reachable_inv[OF assms(1)] assms(2-7)] .

theorem round_robin_rotation_witness:
  "reachable cfgB stateB1 \<and> RTOS_ROUND_ROBIN_MODE_SUPPORTED cfgB
   \<and> pActiveTask stateB1 = TaskPtr 0 \<and> cntRoundRobin (taskAry stateB1 ! 0) = 1
   \<and> prioClass (taskAry stateB1 ! 0) = 0 \<and> 1 < noDueTasksAry stateB1 ! 0
   \<and> onTimerTic cfgB stateB1 = Some (True, stateB2)
   \<and> dueList stateB1 0 = [TaskPtr 0, TaskPtr 1]
   \<and> suspList stateB1 = [TaskPtr 2]
   \<and> releasedAtTic cfgB stateB1 (TaskPtr 2) \<and> prioOf stateB1 (TaskPtr 2) = 0
   \<and> RTOS_NO_PRIO_CLASSES cfgB = 2 \<and> dueList stateB2 1 = []
   \<and> dueList stateB2 0 = [TaskPtr 1, TaskPtr 0, TaskPtr 2]
   \<and> suspList stateB2 = []
   \<and> cntRoundRobin (taskAry stateB2 ! 0) = timeRoundRobin (taskAry stateB1 ! 0)
   \<and> pActiveTask stateB2 = dueList stateB1 0 ! 1"
proof -
  have h: "RTOS_ROUND_ROBIN_MODE_SUPPORTED cfgB" "pActiveTask stateB1 = TaskPtr 0"
    "cntRoundRobin (taskAry stateB1 ! 0) = 1" "prioClass (taskAry stateB1 ! 0) = 0"
    "1 < noDueTasksAry stateB1 ! 0"
    by (simp_all add: cfgB_def stateB1_def zeroTask_def)
  have d: "dueList stateB1 0 = [TaskPtr 0, TaskPtr 1]" "suspList stateB1 = [TaskPtr 2]"
    "dueList stateB2 1 = []"
    by (simp_all add: dueList_def suspList_def stateB1_def stateB2_def)
  have r: "releasedAtTic cfgB stateB1 (TaskPtr 2)" "prioOf stateB1 (TaskPtr 2) = 0"
    by (simp_all add: releasedAtTic_def prioOf_def getTask_def rd_def stateB1_def cfgB_def
          zeroTask_def serveTimers_def releaseTest_def TIMER_EVT_MASK_def Let_def)
  have n: "RTOS_NO_PRIO_CLASSES cfgB = 2" by (simp add: cfgB_def)
  have e: "\<forall>c'. 0 < c' \<and> c' < RTOS_NO_PRIO_CLASSES cfgB \<longrightarrow> dueList stateB2 c' = []"
  proof (intro allI impI)
    fix c' assume "0 < c' \<and> c' < RTOS_NO_PRIO_CLASSES cfgB"
    then have "c' = 1" by (simp add: cfgB_def)
    with d(3) show "dueList stateB2 c' = []" by simp
  qed
  note T = round_robin_rotation[OF reachB1 h onTicB2]
  from T have "dueList stateB2 0 = tl (dueList stateB1 0) @ [TaskPtr 0]
          @ filter (\<lambda>p. releasedAtTic cfgB stateB1 p \<and> prioOf stateB1 p = 0) (suspList stateB1)"
    by blast
  with d r have d2: "dueList stateB2 0 = [TaskPtr 1, TaskPtr 0, TaskPtr 2]" by simp
  from T have "suspList stateB2 = filter (\<lambda>p. \<not> releasedAtTic cfgB stateB1 p) (suspList stateB1)"
    by blast
  with d r have s2: "suspList stateB2 = []" by simp
  from T e
  have "cntRoundRobin (taskAry stateB2 ! 0) = timeRoundRobin (taskAry stateB1 ! 0)"
    "pActiveTask stateB2 = dueList stateB1 0 ! 1" by blast+
  with reachB1 h onTicB2 d r n d2 s2 show ?thesis by blast
qed

section \<open>The request for a context switch\<close>

text \<open>
  Claim C10.  In every reachable state the value that \<^verbatim>\<open>checkForTaskActivation\<close> returns to
  the timer interrupt and to \<^verbatim>\<open>rtos_setEvent\<close> through \<^verbatim>\<open>onTimerTic\<close> and \<^verbatim>\<open>setEvent\<close> says whether the
  active task has changed: it is true if and only if the pointer to the active task
  differs from the one before the call.  The same holds for a direct call of
  \<^verbatim>\<open>checkForTaskActivation\<close> in a reachable state, provided that the hint of a possible
  change, which only \<^verbatim>\<open>onTimerTic\<close> gives after it has rotated a list of due tasks, is given
  only if some list of due tasks is not empty.
\<close>

theorem switch_flag_exact:
  assumes "reachable cfg s"
  shows "(onTimerTic cfg s = Some (b1, s1) \<longrightarrow> b1 = (pActiveTask s1 \<noteq> pActiveTask s))
       \<and> (setEvent cfg vec s = Some (b2, s2) \<longrightarrow> b2 = (pActiveTask s2 \<noteq> pActiveTask s))
       \<and> ((RTOS_ROUND_ROBIN_MODE_SUPPORTED cfg \<and> hint
              \<longrightarrow> (\<exists>c < RTOS_NO_PRIO_CLASSES cfg. 0 < noDueTasksAry s ! c))
            \<and> checkForTaskActivation cfg hint s = Some (b3, s3)
            \<longrightarrow> b3 = (pActiveTask s3 \<noteq> pActiveTask s))"
proof -
  note inv = reachable_inv[OF assms]
  have "b1 = (pActiveTask s1 \<noteq> pActiveTask s)" if "onTimerTic cfg s = Some (b1, s1)"
    using onTimerTic_inv(2)[OF inv that] .
  moreover have "b2 = (pActiveTask s2 \<noteq> pActiveTask s)" if "setEvent cfg vec s = Some (b2, s2)"
    using setEvent_inv(2)[OF inv that] .
  moreover have "b3 = (pActiveTask s3 \<noteq> pActiveTask s)"
    if "(RTOS_ROUND_ROBIN_MODE_SUPPORTED cfg \<and> hint
              \<longrightarrow> (\<exists>c < RTOS_NO_PRIO_CLASSES cfg. 0 < noDueTasksAry s ! c))
            \<and> checkForTaskActivation cfg hint s = Some (b3, s3)"
    using checkForTaskActivation_inv(3)[OF kernelInvD(1)[OF inv], of hint b3 s3] that
      kernelInvD(2)[OF inv] by blast
  ultimately show ?thesis by blast
qed

theorem switch_flag_exact_witness:
  "reachable cfgA stateA1
   \<and> onTimerTic cfgA stateA1 = Some (True, stateA2)
   \<and> pActiveTask stateA2 \<noteq> pActiveTask stateA1
   \<and> setEvent cfgA 1 stateA1 = Some (False, stateA1)
   \<and> (\<exists>c < RTOS_NO_PRIO_CLASSES cfgA. 0 < noDueTasksAry stateA1 ! c)
   \<and> checkForTaskActivation cfgA True stateA1
        = Some (False, stateA1\<lparr>pSuspendedTask := TaskPtr 0\<rparr>)
   \<and> pActiveTask (stateA1\<lparr>pSuspendedTask := TaskPtr 0\<rparr>) = pActiveTask stateA1"
proof -
  have h: "\<exists>c < RTOS_NO_PRIO_CLASSES cfgA. 0 < noDueTasksAry stateA1 ! c"
    by (rule exI[of _ 0]) (simp add: cfgA_def stateA1_def)
  from switch_flag_exact[OF reachA1, of True stateA2 1 False stateA1 True False
         "stateA1\<lparr>pSuspendedTask := TaskPtr 0\<rparr>"] onTicA2 setA1 scanA1 h
  have "pActiveTask stateA2 \<noteq> pActiveTask stateA1"
    "pActiveTask (stateA1\<lparr>pSuspendedTask := TaskPtr 0\<rparr>) = pActiveTask stateA1"
    by simp_all
  with reachA1 onTicA2 setA1 scanA1 h show ?thesis by blast
qed

end
